theory Spec2Isabelle
  imports Main "HOL-Library.Sublist"
begin

section \<open>The chat client: data model\<close>

text \<open>
  The client is the React component \<open>Home\<close> of \<open>frontend/app/page.tsx\<close> (the streaming
  variant, which reads \<open>/api/query-stream\<close>) and its buffered sibling (the second variant
  of \<open>page.tsx\<close> and \<open>frontend/app/layout.tsx\<close>, which read \<open>/api/query\<close>).

  JavaScript strings are modelled as \<open>string\<close>, a list of 8-bit characters; text outside
  that range is not modelled. Field names of the source are kept; where two interfaces
  share a field name, or a name is taken by a HOL constant (\<open>id\<close>), the field carries a
  prefix.
\<close>

record source =
  gcs_name :: string
  name :: string
  industry :: string
  topics :: "string list"
  url :: "string option"

datatype role = User | Assistant

text \<open>
  \<open>ChatMessage\<close>. The optional fields \<open>sources\<close> and \<open>elapsed\<close> are \<open>None\<close> when the
  object literal leaves them out. \<open>context_id\<close> is \<open>None\<close> for both \<open>null\<close> and a missing
  field: its only reader is \<open>msg.context_id ?? null\<close>, which merges the two.
\<close>

record chat_message =
  msg_id :: nat
  role :: role
  content :: string
  sources :: "source list option"
  context_id :: "string option"
  msg_elapsed :: "nat option"

text \<open>The payload of an \<open>answer\<close> event, and of the buffered endpoint's JSON reply.\<close>

record answer_data =
  answer :: string
  answer_sources :: "source list"
  answer_context_id :: "string option"

text \<open>\<open>event.doc\<close> of a \<open>loading\<close> event, and an entry of \<open>loadingDocs\<close>, which is
  \<open>{ ...event.doc, done }\<close> (\<open>done\<close> is a keyword of Isabelle, hence \<open>doc_done\<close>).\<close>

record doc =
  doc_name :: string
  doc_industry :: string

record loading_doc = doc +
  doc_done :: bool

datatype phase = PSearching | PLoading | PAnswering

text \<open>
  What the reader loop distinguishes in a parsed event: the six values of \<open>event.type\<close>
  it tests for, and \<open>Other\<close> for every parsed value whose \<open>type\<close> is none of them (no
  branch of the \<open>if\<close> chain is taken).
\<close>

datatype event =
    Searching
  | Found nat
  | Loading doc
  | Answering
  | Answer answer_data
  | Error string
  | Other

text \<open>
  The state of the buffered component: the \<open>useState\<close> cells and refs that \<open>handleSend\<close>
  and \<open>handleFollowUp\<close> read or write, and the module variable \<open>msgIdCounter\<close>.
  \<open>timer_running\<close> says whether the interval stored in \<open>timerRef\<close> is live.
  The cells \<open>industries\<close>, \<open>showPicker\<close> and \<open>stats\<close> occur in neither function and are
  left out.
\<close>

record home_state =
  messages :: "chat_message list"
  input :: string
  loading :: bool
  elapsed :: nat
  timer_running :: bool
  selectedIndustries :: "string list"
  followUpMsgId :: "nat option"
  followUpSources :: "source list"
  followUpContextId :: "string option"
  msgIdCounter :: nat

text \<open>The streaming component has four more cells.\<close>

record stream_state = home_state +
  elapsedRef :: nat
  loadingPhase :: "phase option"
  loadingDocs :: "loading_doc list"
  loadingTotal :: nat

text \<open>
  The JSON request body, \<open>Record<string, unknown>\<close>: the keys in insertion order, which is
  the order \<open>JSON.stringify\<close> writes them in.
\<close>

datatype jvalue = JNull | JString string | JStrings "string list"

type_synonym body = "(string \<times> jvalue) list"

record request =
  path :: string
  req_body :: body

section \<open>The chat client: operations\<close>

text \<open>\<open>String.prototype.trim\<close> on 8-bit text: TAB, LF, VT, FF, CR, SP and NBSP are
  stripped from both ends.\<close>

definition is_space :: "char \<Rightarrow> bool" where
  "is_space c = (c \<in> set [CHR 0x09, CHR 0x0A, CHR 0x0B, CHR 0x0C, CHR 0x0D, CHR 0x20, CHR 0xA0])"

definition trim :: "string \<Rightarrow> string" where
  "trim s = rev (dropWhile is_space (rev (dropWhile is_space s)))"

text \<open>JavaScript truthiness of a \<open>string | null\<close>: \<open>null\<close> and the empty string are falsy.\<close>

definition truthy :: "string option \<Rightarrow> bool" where
  "truthy h = (case h of None \<Rightarrow> False | Some t \<Rightarrow> t \<noteq> [])"

text \<open>How a \<open>string | null\<close> is written into the body.\<close>

definition jnullable :: "string option \<Rightarrow> jvalue" where
  "jnullable h = (case h of None \<Rightarrow> JNull | Some t \<Rightarrow> JString t)"

subsection \<open>The streaming client\<close>

text \<open>
  Lines 125-132 of the streaming \<open>handleSend\<close>: the body starts as \<open>{ question: q }\<close> and
  one branch of the \<open>if\<close> chain adds a field.
\<close>

definition stream_body :: "string \<Rightarrow> stream_state \<Rightarrow> body" where
  "stream_body q s =
     (if length (followUpSources s) > 0 \<and> truthy (followUpContextId s)
      then [(''question'', JString q), (''context_id'', jnullable (followUpContextId s))]
      else if length (followUpSources s) > 0
      then [(''question'', JString q),
            (''pinned_gcs_names'', JStrings (map gcs_name (followUpSources s)))]
      else [(''question'', JString q),
            (''industry_filter'',
               if length (selectedIndustries s) > 0 then JStrings (selectedIndustries s)
               else JNull)])"

text \<open>
  A block of the source either runs to its end or throws; either way the state it has
  reached is kept (the \<open>catch\<close> clause appends to the messages as they then are).
\<close>

datatype 's outcome = Threw 's | Normal 's

text \<open>The next message id, \<open>++msgIdCounter\<close>, and the three object literals that
  \<open>setMessages\<close> appends.\<close>

definition user_message :: "nat \<Rightarrow> string \<Rightarrow> chat_message" where
  "user_message i q =
     \<lparr>msg_id = i, role = User, content = q, sources = None, context_id = None,
      msg_elapsed = None\<rparr>"

definition answer_message :: "nat \<Rightarrow> answer_data \<Rightarrow> nat \<Rightarrow> chat_message" where
  "answer_message i a t =
     \<lparr>msg_id = i, role = Assistant, content = answer a, sources = Some (answer_sources a),
      context_id = answer_context_id a, msg_elapsed = Some t\<rparr>"

definition fallback_text :: string where
  "fallback_text = ''Something went wrong. Make sure the API is running (`make api`).''"

definition fallback_message :: "nat \<Rightarrow> chat_message" where
  "fallback_message i =
     \<lparr>msg_id = i, role = Assistant, content = fallback_text, sources = None,
      context_id = None, msg_elapsed = None\<rparr>"

text \<open>
  The updater of the \<open>loading\<close> branch:
  \<open>prev.map((d, i) => i === prev.length - 1 ? { ...d, done: true } : d)\<close>.
  On the empty list there is no index to compare, so the truncated subtraction is
  never looked at.
\<close>

definition mark_last_done :: "loading_doc list \<Rightarrow> loading_doc list" where
  "mark_last_done prev =
     map (\<lambda>(i, d). if i = length prev - 1 then d\<lparr>doc_done := True\<rparr> else d)
         (enumerate 0 prev)"

text \<open>Lines 154-174: the effect of one parsed event. An \<open>error\<close> event throws.\<close>

fun handle_event :: "event \<Rightarrow> stream_state \<Rightarrow> stream_state outcome" where
  "handle_event Searching s = Normal (s\<lparr>loadingPhase := Some PSearching\<rparr>)"
| "handle_event (Found n) s =
     Normal (s\<lparr>loadingTotal := n, loadingPhase := Some PLoading\<rparr>)"
| "handle_event (Loading d) s =
     Normal (s\<lparr>loadingDocs :=
        mark_last_done (loadingDocs s) @
        [\<lparr>doc_name = doc_name d, doc_industry = doc_industry d, doc_done = False\<rparr>]\<rparr>)"
| "handle_event Answering s =
     Normal (s\<lparr>loadingPhase := Some PAnswering,
               loadingDocs := map (\<lambda>d. d\<lparr>doc_done := True\<rparr>) (loadingDocs s)\<rparr>)"
| "handle_event (Answer a) s =
     Normal (s\<lparr>msgIdCounter := msgIdCounter s + 1,
               messages := messages s @
                 [answer_message (msgIdCounter s + 1) a (elapsedRef s)]\<rparr>)"
| "handle_event (Error message) s = Threw s"
| "handle_event Other s = Normal s"

text \<open>
  \<open>buffer.split("\n")\<close>: a string with \<open>n\<close> newlines gives \<open>n + 1\<close> pieces, so the result
  is never empty and its last piece is the text after the last newline.
\<close>

fun split_nl :: "string \<Rightarrow> string list" where
  "split_nl [] = [[]]"
| "split_nl (c # cs) =
     (if c = CHR 0x0A then [] # split_nl cs
      else (case split_nl cs of [] \<Rightarrow> [[c]] | l # ls \<Rightarrow> (c # l) # ls))"

text \<open>
  Lines 151-175, the \<open>for\<close> loop over the complete lines. \<open>parse\<close> stands for
  \<open>JSON.parse\<close> followed by the reading of \<open>event.type\<close>: \<open>None\<close> when either throws (text
  that is not JSON, or the JSON value \<open>null\<close>). The effect \<open>h\<close> of one event is a
  parameter, so that the same loop can be run with the client's \<open>handle_event\<close>, alone
  or after the ticks of the interval (\<open>timed_event\<close> below), and with a handler that
  records what it is given.
\<close>

fun handle_lines ::
  "(string \<Rightarrow> event option) \<Rightarrow> (event \<Rightarrow> 's \<Rightarrow> 's outcome) \<Rightarrow> string list \<Rightarrow> 's \<Rightarrow> 's outcome"
where
  "handle_lines parse h [] s = Normal s"
| "handle_lines parse h (line # lines) s =
     (if \<not> prefix ''data: '' line then handle_lines parse h lines s
      else (case parse (drop 6 line) of
              None \<Rightarrow> Threw s
            | Some e \<Rightarrow>
                (case h e s of
                   Threw s' \<Rightarrow> Threw s'
                 | Normal s' \<Rightarrow> handle_lines parse h lines s')))"

text \<open>
  Lines 143-176, the \<open>while (true)\<close> loop. The response is the list of decoded chunks
  that \<open>reader.read()\<close> delivers before it reports \<open>done\<close> or rejects; a response that
  never ends has no completion and is outside this model. The decoder runs in streaming
  mode, so the decoded pieces concatenate to the decoded text of the whole stream, and
  a partition of the bytes gives a partition of that text.
\<close>

datatype stream_end = Done | ReadError

fun read_loop ::
  "(string \<Rightarrow> event option) \<Rightarrow> (event \<Rightarrow> 's \<Rightarrow> 's outcome) \<Rightarrow> string \<Rightarrow> string list \<Rightarrow>
     stream_end \<Rightarrow> 's \<Rightarrow> 's outcome"
where
  "read_loop parse h buffer [] ending s =
     (case ending of Done \<Rightarrow> Normal s | ReadError \<Rightarrow> Threw s)"
| "read_loop parse h buffer (chunk # rest) ending s =
     (let lines = split_nl (buffer @ chunk);
          buffer' = (if lines = [] then [] else last lines)
      in case handle_lines parse h (butlast lines) s of
           Threw s' \<Rightarrow> Threw s'
         | Normal s' \<Rightarrow> read_loop parse h buffer' rest ending s')"

text \<open>What \<open>fetch\<close> gives the streaming client: a rejection, a response with its
  \<open>ok\<close> flag, the chunks of its body and how the body ends, or a response with its
  \<open>ok\<close> flag whose \<open>body\<close> is \<open>null\<close>.\<close>

datatype response = FetchRejected | HttpResponse bool "string list" stream_end | HttpNoBody bool

text \<open>
  Lines 177-181, the \<open>catch\<close> clause, and lines 182-189, the \<open>finally\<close> clause.
  \<open>timerRef.current\<close> holds the id that \<open>setInterval\<close> returned on line 122, which is
  truthy, so the interval is always cleared.
\<close>

definition catch_block :: "'a home_state_scheme \<Rightarrow> 'a home_state_scheme" where
  "catch_block s =
     s\<lparr>msgIdCounter := msgIdCounter s + 1,
       messages := messages s @ [fallback_message (msgIdCounter s + 1)]\<rparr>"

definition finally_block :: "stream_state \<Rightarrow> stream_state" where
  "finally_block s =
     s\<lparr>timer_running := False, loading := False, loadingPhase := None,
       loadingDocs := [], loadingTotal := 0\<rparr>"

text \<open>Lines 114-122: the user message is appended and the transient cells are reset
  before the request is built.\<close>

definition begin_send :: "string \<Rightarrow> stream_state \<Rightarrow> stream_state" where
  "begin_send q s =
     s\<lparr>msgIdCounter := msgIdCounter s + 1,
       messages := messages s @ [user_message (msgIdCounter s + 1) q],
       input := [], elapsed := 0, elapsedRef := 0, loading := True,
       loadingPhase := Some PSearching, loadingDocs := [], loadingTotal := 0,
       timer_running := True\<rparr>"

text \<open>
  Line 122, the callback of the interval:
  \<open>setElapsed((s) => { elapsedRef.current = s + 1; return s + 1; })\<close>.
\<close>

definition tick :: "stream_state \<Rightarrow> stream_state" where
  "tick s = s\<lparr>elapsed := elapsed s + 1, elapsedRef := elapsed s + 1\<rparr>"

text \<open>
  A send in progress: the state the component is in, the states it has been in since the
  send began (one more after each event handled, after the \<open>catch\<close> clause and after the
  \<open>finally\<close> clause), and the waits still to come. The interval fires while the send
  awaits \<open>fetch\<close> or a read; \<open>waits\<close> says how often, in order: one entry before each
  event is handled (the ticks since the event before it, or since the send began), and
  one more before the \<open>try\<close> block is left (the read that reports \<open>done\<close> or rejects, or
  the \<open>fetch\<close> that fails). A list that has run out means no more ticks. Every
  interleaving of the interval with the reads is described by one of these lists; where
  the code does not wait (events of one chunk, a throw inside the loop), the list of a
  real run has a 0.
\<close>

record progress =
  current :: stream_state
  history :: "stream_state list"
  waits :: "nat list"

definition await :: "progress \<Rightarrow> progress" where
  "await r =
     r\<lparr>current := (tick ^^ (case waits r of [] \<Rightarrow> 0 | n # _ \<Rightarrow> n)) (current r),
       waits := tl (waits r)\<rparr>"

definition arrive :: "stream_state \<Rightarrow> progress \<Rightarrow> progress" where
  "arrive t r = r\<lparr>current := t, history := history r @ [t]\<rparr>"

text \<open>One event of the stream, as the send meets it: the wait, then lines 154-174.\<close>

definition timed_event :: "event \<Rightarrow> progress \<Rightarrow> progress outcome" where
  "timed_event e r =
     (case handle_event e (current (await r)) of
        Threw t \<Rightarrow> Threw (arrive t (await r))
      | Normal t \<Rightarrow> Normal (arrive t (await r)))"

text \<open>
  Lines 110-190, with the states passed through and the request that was handed to
  \<open>fetch\<close>, if any. A response that is not ok throws on line 139, and a \<open>null\<close> body
  throws on line 141.
\<close>

definition handleSend_run ::
  "(string \<Rightarrow> event option) \<Rightarrow> nat list \<Rightarrow> response \<Rightarrow> stream_state \<Rightarrow>
     progress \<times> request option"
where
  "handleSend_run parse ws res s =
     (let q = trim (input s) in
      if q = [] \<or> loading s then (\<lparr>current = s, history = [s], waits = ws\<rparr>, None)
      else
        let r1 = \<lparr>current = begin_send q s, history = [begin_send q s], waits = ws\<rparr>;
            req = \<lparr>path = ''/api/query-stream'', req_body = stream_body q s\<rparr>;
            tried = (case res of
                       FetchRejected \<Rightarrow> Threw r1
                     | HttpNoBody ok \<Rightarrow> Threw r1
                     | HttpResponse ok chunks ending \<Rightarrow>
                         if \<not> ok then Threw r1
                         else read_loop parse timed_event [] chunks ending r1);
            r2 = (case tried of
                    Threw r \<Rightarrow> arrive (catch_block (current (await r))) (await r)
                  | Normal r \<Rightarrow> await r)
        in (arrive (finally_block (current r2)) r2, Some req))"

text \<open>The state a send ends in with the request it sent, and the states it passed
  through.\<close>

definition handleSend ::
  "(string \<Rightarrow> event option) \<Rightarrow> nat list \<Rightarrow> response \<Rightarrow> stream_state \<Rightarrow>
     stream_state \<times> request option"
where
  "handleSend parse ws res s =
     (current (fst (handleSend_run parse ws res s)), snd (handleSend_run parse ws res s))"

definition send_history ::
  "(string \<Rightarrow> event option) \<Rightarrow> nat list \<Rightarrow> response \<Rightarrow> stream_state \<Rightarrow> stream_state list"
where
  "send_history parse ws res s = history (fst (handleSend_run parse ws res s))"

subsection \<open>The buffered client\<close>

text \<open>Lines 581-588 of the buffered variant (\<open>layout.tsx\<close> lines 135-144).\<close>

definition buffered_body :: "string \<Rightarrow> home_state \<Rightarrow> body" where
  "buffered_body q s =
     (if length (followUpSources s) > 0 \<and> truthy (followUpContextId s)
      then [(''question'', JString q), (''context_id'', jnullable (followUpContextId s))]
      else if length (followUpSources s) > 0
      then [(''question'', JString q),
            (''pinned_gcs_names'', JStrings (map gcs_name (followUpSources s)))]
      else [(''question'', JString q),
            (''industry_filter'',
               if length (selectedIndustries s) > 0 then JStrings (selectedIndustries s)
               else JNull)])"

text \<open>What \<open>fetch\<close> gives the buffered client; the data is \<open>None\<close> when \<open>res.json()\<close>
  rejects (the body is not JSON). A body that is the JSON value \<open>null\<close> is outside this
  model: nothing is thrown inside the \<open>try\<close> block, and the updater of line 597 fails
  when the component renders.\<close>

datatype buffered_response = BFetchRejected | BHttpResponse bool "answer_data option"

text \<open>Line 578, the callback of the interval: \<open>setElapsed((s) => s + 1)\<close>.\<close>

definition tick_buffered :: "home_state \<Rightarrow> home_state" where
  "tick_buffered s = s\<lparr>elapsed := elapsed s + 1\<rparr>"

text \<open>
  Lines 570-611; the interval fires \<open>waited\<close> times while the send awaits \<open>fetch\<close> and
  \<open>res.json()\<close>. The \<open>elapsed\<close> written into the answer message is the value the closure
  captured, the one of the state the send started from.
\<close>

definition handleSend_buffered ::
  "nat \<Rightarrow> buffered_response \<Rightarrow> home_state \<Rightarrow> home_state \<times> request option"
where
  "handleSend_buffered waited res s =
     (let q = trim (input s) in
      if q = [] \<or> loading s then (s, None)
      else
        let s0 = s\<lparr>msgIdCounter := msgIdCounter s + 1,
                   messages := messages s @ [user_message (msgIdCounter s + 1) q],
                   input := [], elapsed := 0, loading := True, timer_running := True\<rparr>;
            s1 = (tick_buffered ^^ waited) s0;
            req = \<lparr>path = ''/api/query'', req_body = buffered_body q s\<rparr>;
            tried = (case res of
                       BFetchRejected \<Rightarrow> Threw s1
                     | BHttpResponse ok data \<Rightarrow>
                         if \<not> ok then Threw s1
                         else (case data of
                                 None \<Rightarrow> Threw s1
                               | Some a \<Rightarrow>
                                   Normal (s1\<lparr>msgIdCounter := msgIdCounter s1 + 1,
                                     messages := messages s1 @
                                       [answer_message (msgIdCounter s1 + 1) a (elapsed s)]\<rparr>)));
            s2 = (case tried of Threw t \<Rightarrow> catch_block t | Normal t \<Rightarrow> t)
        in (s2\<lparr>timer_running := False, loading := False\<rparr>, Some req))"

text \<open>Lines 97-108, \<open>handleFollowUp\<close>, and the \<open>onChange\<close> handler of the text area.\<close>

definition handleFollowUp ::
  "nat \<Rightarrow> source list \<Rightarrow> string option \<Rightarrow> 'a home_state_scheme \<Rightarrow> 'a home_state_scheme"
where
  "handleFollowUp msgId srcs contextId s =
     (if length srcs = 0
      then s\<lparr>followUpMsgId := None, followUpSources := [], followUpContextId := None\<rparr>
      else s\<lparr>followUpMsgId := Some msgId, followUpSources := srcs,
             followUpContextId := contextId\<rparr>)"

definition onChange :: "string \<Rightarrow> 'a home_state_scheme \<Rightarrow> 'a home_state_scheme" where
  "onChange v s = s\<lparr>input := v\<rparr>"

text \<open>
  A run of the component between renders: the user edits the text area or presses Send,
  and each Send meets the waits and the response the server gives it. The requests that
  were sent are collected in order.
\<close>

datatype action = Type string | Send "nat list" response

fun session ::
  "(string \<Rightarrow> event option) \<Rightarrow> action list \<Rightarrow> stream_state \<Rightarrow> stream_state \<times> request list"
where
  "session parse [] s = (s, [])"
| "session parse (Type v # acts) s = session parse acts (onChange v s)"
| "session parse (Send ws res # acts) s =
     (let (s', r) = handleSend parse ws res s;
          (s'', rs) = session parse acts s'
      in (s'', (case r of None \<Rightarrow> [] | Some x \<Rightarrow> [x]) @ rs))"

subsection \<open>Reading the stream as a whole\<close>

text \<open>
  The events of a stream, read off its whole text: the lines that end in a newline and
  start with \<open>data: \<close>, each parsed. And the state the loop body leaves after handling
  such a sequence in order, stopping at the first throw.
\<close>

definition sse_events :: "(string \<Rightarrow> event option) \<Rightarrow> string \<Rightarrow> event option list" where
  "sse_events parse text =
     map (\<lambda>line. parse (drop 6 line)) (filter (prefix ''data: '') (butlast (split_nl text)))"

fun run_events :: "(event \<Rightarrow> 's \<Rightarrow> 's outcome) \<Rightarrow> event option list \<Rightarrow> 's \<Rightarrow> 's outcome" where
  "run_events h [] s = Normal s"
| "run_events h (None # evs) s = Threw s"
| "run_events h (Some e # evs) s =
     (case h e s of Threw s' \<Rightarrow> Threw s' | Normal s' \<Rightarrow> run_events h evs s')"

text \<open>A message without its id and elapsed time.\<close>

definition message_view :: "chat_message \<Rightarrow> role \<times> string \<times> source list option \<times> string option" where
  "message_view m = (role m, content m, sources m, context_id m)"

text \<open>Reading a request body: the value of a field, and the fields other than the
  question.\<close>

definition field :: "string \<Rightarrow> body \<Rightarrow> jvalue option" where
  "field k b = map_of b k"

definition mode_fields :: "body \<Rightarrow> body" where
  "mode_fields b = filter (\<lambda>kv. fst kv \<noteq> ''question'') b"

text \<open>The cells that only the follow-up toggle and the industry picker write.\<close>

definition follow_up ::
  "'a home_state_scheme \<Rightarrow> string list \<times> nat option \<times> source list \<times> string option" where
  "follow_up s = (selectedIndustries s, followUpMsgId s, followUpSources s, followUpContextId s)"

text \<open>The three fields that select a retrieval mode.\<close>

definition mode_keys :: "string list" where
  "mode_keys = [''context_id'', ''pinned_gcs_names'', ''industry_filter'']"

text \<open>
  A handler that records the events it is given, and throws where the client does; the
  events the reader loop parses from a list of chunks are what it has recorded at the end.
\<close>

definition record_event :: "event \<Rightarrow> event list \<Rightarrow> event list outcome" where
  "record_event e seen = (case e of Error m \<Rightarrow> Threw (seen @ [e]) | _ \<Rightarrow> Normal (seen @ [e]))"

definition parsed_events :: "(string \<Rightarrow> event option) \<Rightarrow> string list \<Rightarrow> event list outcome" where
  "parsed_events parse chunks = read_loop parse record_event [] chunks Done []"

section \<open>The query orchestration core\<close>

text \<open>
  The server behind \<open>/api/query\<close> and \<open>/api/query-stream\<close> (\<open>api.main\<close>, started by the
  \<open>api\<close> target of the Makefile) is not among the sources; the client above is its
  caller. This section follows sections 3 to 5 of the specification. The embedding
  service, the vector index, the chunk store and the language model are collaborators
  given as functions; a failure or a timeout of one of them is an \<open>Inl\<close> with its message.
  Cancellation by a disconnecting client is not modelled.
\<close>

text \<open>Modelled from the spec: \<open>ChunkRef\<close> of section 3, a type of the missing server.\<close>

record chunk_ref =
  chunk_id :: string
  document_id :: string
  chunk_text :: string
  chunk_industry :: string
  chunk_topics :: "string list"
  chunk_url :: "string option"
  score :: int

text \<open>Modelled from the spec: \<open>RetrievalFilter\<close> of section 3, a type of the missing
  server.\<close>

datatype retrieval_filter = Unrestricted | ByIndustries "string set" | ByDocuments "string set"

text \<open>Modelled from the spec: \<open>QueryContext\<close> of section 3, a type of the missing server.\<close>

record query_context =
  handle_id :: string
  context_chunks :: "chunk_ref list"
  created :: nat
  originating_question :: string

text \<open>Modelled from the spec: \<open>QueryRequest\<close> of section 3, a type of the missing server;
  a fresh question carries its industry filter, if any.\<close>

datatype query_request =
    FreshQuestion string "string list option"
  | FollowUp string string
  | PinnedFollowUp string "string list"

text \<open>Modelled from the spec: \<open>AnswerResult\<close> of section 3, a type of the missing server.\<close>

record answer_result =
  answer_text :: string
  result_sources :: "chunk_ref list"
  context_handle :: string
  elapsed_time :: nat

text \<open>Modelled from the spec: \<open>PhaseEvent\<close> of section 3, a type of the missing server.\<close>

datatype phase_event =
    is_searching: PhSearching
  | is_found: PhFound nat
  | is_loading: PhLoading string string
  | is_answering: PhAnswering
  | is_answer: PhAnswer answer_result
  | is_error: PhError string

text \<open>Modelled from the spec: the terminal events of section 4.3, \<open>Answer\<close> and \<open>Error\<close>,
  of the missing server's stream.\<close>

definition is_terminal :: "phase_event \<Rightarrow> bool" where
  "is_terminal e = (is_answer e \<or> is_error e)"

text \<open>Modelled from the spec: the context cache of the missing server, the entries in
  creation order, oldest first (section 5).\<close>

type_synonym cache = "(string \<times> query_context) list"

text \<open>Modelled from the spec: \<open>ContextCache.load\<close> of the missing server (section 4.2);
  \<open>None\<close> is \<open>Miss\<close>, for a handle that is unknown or older than the time to live.\<close>

definition cache_load :: "nat \<Rightarrow> nat \<Rightarrow> cache \<Rightarrow> string \<Rightarrow> chunk_ref list option" where
  "cache_load ttl now c h =
     (case map_of c h of
        None \<Rightarrow> None
      | Some e \<Rightarrow> if created e + ttl < now then None else Some (context_chunks e))"

text \<open>Modelled from the spec: \<open>ContextCache.store\<close> of the missing server (sections 4.2
  and 5); beyond the capacity the oldest-created entries go first.\<close>

definition cache_store ::
  "nat \<Rightarrow> nat \<Rightarrow> string \<Rightarrow> string \<Rightarrow> chunk_ref list \<Rightarrow> cache \<Rightarrow> cache" where
  "cache_store capacity now h q chunks c =
     (let c' = c @ [(h, \<lparr>handle_id = h, context_chunks = chunks, created = now,
                         originating_question = q\<rparr>)]
      in drop (length c' - capacity) c')"

text \<open>Modelled from the spec: \<open>ContextCache.evict\<close> of the missing server (section 4.2).\<close>

definition cache_evict :: "string \<Rightarrow> cache \<Rightarrow> cache" where
  "cache_evict h c = filter (\<lambda>kv. fst kv \<noteq> h) c"

text \<open>Modelled from the spec: the collaborators of the missing server (section 2): the
  Retriever's contract, the language-model capability, the chunk store's document
  names and the generator of handles.\<close>

record collaborators =
  retrieve :: "string \<Rightarrow> retrieval_filter \<Rightarrow> string + chunk_ref list"
  language_model :: "string \<Rightarrow> chunk_ref list \<Rightarrow> string + string"
  document_name :: "string \<Rightarrow> string"
  fresh_handle :: "cache \<Rightarrow> string"

text \<open>Modelled from the spec: the configured bounds of the missing server (sections 4.4
  and 5).\<close>

record config =
  ttl :: nat
  capacity :: nat
  budget :: nat

text \<open>Modelled from the spec: one entry per document, the first chunk of each in rank
  order (sections 3 and 4.4), in the missing server.\<close>

fun first_per_document :: "chunk_ref list \<Rightarrow> chunk_ref list" where
  "first_per_document [] = []"
| "first_per_document (c # cs) =
     c # first_per_document (filter (\<lambda>d. document_id d \<noteq> document_id c) cs)"

text \<open>Modelled from the spec: the bounded prompt of the missing Synthesizer (section
  4.4); the lowest-ranked chunks are dropped when the text exceeds the budget.\<close>

fun within_budget :: "nat \<Rightarrow> chunk_ref list \<Rightarrow> chunk_ref list" where
  "within_budget b [] = []"
| "within_budget b (c # cs) =
     (if length (chunk_text c) \<le> b then c # within_budget (b - length (chunk_text c)) cs
      else [])"

text \<open>Modelled from the spec: \<open>Synthesizer.synthesize\<close> of the missing server (section
  4.4); an empty response is a synthesis failure (section 7).\<close>

definition synthesize ::
  "collaborators \<Rightarrow> config \<Rightarrow> string \<Rightarrow> chunk_ref list \<Rightarrow> string + (string \<times> chunk_ref list)" where
  "synthesize col cfg q chunks =
     (case language_model col q (within_budget (budget cfg) chunks) of
        Inl m \<Rightarrow> Inl m
      | Inr text \<Rightarrow>
          if text = [] then Inl ''empty response'' else Inr (text, first_per_document chunks))"

text \<open>Modelled from the spec: what one run of the missing Orchestrator leaves behind:
  the events it emitted in order, the calls it made to the Synthesizer, and the cache.\<close>

record run =
  emitted :: "phase_event list"
  synthesizer_calls :: "(string \<times> chunk_ref list) list"
  cache_after :: cache

text \<open>Modelled from the spec: steps 5 and 6 of section 4.3 in the missing Orchestrator,
  after the events \<open>before\<close>; \<open>now\<close> and \<open>finished\<close> are the clock at the start and at
  the end of the request.\<close>

definition answering ::
  "collaborators \<Rightarrow> config \<Rightarrow> nat \<Rightarrow> nat \<Rightarrow> cache \<Rightarrow> string \<Rightarrow> chunk_ref list \<Rightarrow>
     phase_event list \<Rightarrow> run" where
  "answering col cfg now finished c q chunks before =
     (case synthesize col cfg q chunks of
        Inl m \<Rightarrow>
          \<lparr>emitted = before @ [PhAnswering, PhError m],
           synthesizer_calls = [(q, chunks)], cache_after = c\<rparr>
      | Inr (text, srcs) \<Rightarrow>
          (let h = fresh_handle col c in
           \<lparr>emitted = before @
              [PhAnswering,
               PhAnswer \<lparr>answer_text = text, result_sources = srcs, context_handle = h,
                         elapsed_time = finished - now\<rparr>],
            synthesizer_calls = [(q, chunks)],
            cache_after = cache_store (capacity cfg) now h q chunks c\<rparr>))"

text \<open>Modelled from the spec: steps 2 to 4 of section 4.3 in the missing Orchestrator.\<close>

definition searching ::
  "collaborators \<Rightarrow> config \<Rightarrow> nat \<Rightarrow> nat \<Rightarrow> cache \<Rightarrow> string \<Rightarrow> retrieval_filter \<Rightarrow> run" where
  "searching col cfg now finished c q f =
     (case retrieve col q f of
        Inl m \<Rightarrow> \<lparr>emitted = [PhSearching, PhError m], synthesizer_calls = [], cache_after = c\<rparr>
      | Inr chunks \<Rightarrow>
          (let docs = first_per_document chunks in
           answering col cfg now finished c q chunks
             ([PhSearching, PhFound (length docs)] @
              map (\<lambda>d. PhLoading (document_name col (document_id d)) (chunk_industry d)) docs)))"

text \<open>Modelled from the spec: step 1 of section 4.3 in the missing Orchestrator; a
  follow-up whose handle misses has no pinned ids and retrieves unrestricted (section 8).\<close>

definition orchestrate ::
  "collaborators \<Rightarrow> config \<Rightarrow> nat \<Rightarrow> nat \<Rightarrow> cache \<Rightarrow> query_request \<Rightarrow> run" where
  "orchestrate col cfg now finished c request =
     (case request of
        FollowUp q h \<Rightarrow>
          (case cache_load (ttl cfg) now c h of
             Some chunks \<Rightarrow> answering col cfg now finished c q chunks []
           | None \<Rightarrow> searching col cfg now finished c q Unrestricted)
      | PinnedFollowUp q ids \<Rightarrow> searching col cfg now finished c q (ByDocuments (set ids))
      | FreshQuestion q None \<Rightarrow> searching col cfg now finished c q Unrestricted
      | FreshQuestion q (Some inds) \<Rightarrow>
          searching col cfg now finished c q (ByIndustries (set inds)))"

text \<open>
  The ordering of section 3 of the specification, read on an emitted sequence. \<open>P\<close>
  precedes \<open>Q\<close>: every event that satisfies \<open>Q\<close> has an event that satisfies \<open>P\<close> before
  it, and none at or after it. The flag says whether a \<open>P\<close> has been seen so far.
\<close>

fun precedes_from :: "bool \<Rightarrow> ('a \<Rightarrow> bool) \<Rightarrow> ('a \<Rightarrow> bool) \<Rightarrow> 'a list \<Rightarrow> bool" where
  "precedes_from seen P Q [] = True"
| "precedes_from seen P Q (x # xs) =
     ((if Q x then seen \<and> \<not> P x \<and> list_all (\<lambda>y. \<not> P y) xs else True)
      \<and> precedes_from (seen \<or> P x) P Q xs)"

definition precedes :: "('a \<Rightarrow> bool) \<Rightarrow> ('a \<Rightarrow> bool) \<Rightarrow> 'a list \<Rightarrow> bool" where
  "precedes P Q evs = precedes_from False P Q evs"

text \<open>
  \<open>P\<close> is followed by \<open>Q\<close>: every event that satisfies \<open>P\<close> has an event that satisfies
  \<open>Q\<close> after it, and none at or before it. The flag says whether a \<open>Q\<close> has been seen so
  far.
\<close>

fun followed_from :: "bool \<Rightarrow> ('a \<Rightarrow> bool) \<Rightarrow> ('a \<Rightarrow> bool) \<Rightarrow> 'a list \<Rightarrow> bool" where
  "followed_from seen P Q [] = True"
| "followed_from seen P Q (x # xs) =
     ((if P x then \<not> seen \<and> \<not> Q x \<and> list_ex Q xs else True)
      \<and> followed_from (seen \<or> Q x) P Q xs)"

definition followed_by :: "('a \<Rightarrow> bool) \<Rightarrow> ('a \<Rightarrow> bool) \<Rightarrow> 'a list \<Rightarrow> bool" where
  "followed_by P Q evs = followed_from False P Q evs"

text \<open>The events of the retrieval phases: \<open>Searching\<close>, \<open>Found\<close> and \<open>Loading\<close>.\<close>

definition is_retrieval_phase :: "phase_event \<Rightarrow> bool" where
  "is_retrieval_phase e = (is_searching e \<or> is_found e \<or> is_loading e)"

text \<open>The events that only report progress: neither \<open>answer\<close> nor \<open>error\<close>.\<close>

definition is_progress :: "event \<Rightarrow> bool" where
  "is_progress e = (case e of Answer a \<Rightarrow> False | Error m \<Rightarrow> False | _ \<Rightarrow> True)"

section \<open>Example data\<close>

text \<open>A source, component states, and a stream with the values \<open>JSON.parse\<close> has on its
  lines; they are the concrete inputs of the examples below.\<close>

definition doc_a :: source where
  "doc_a = \<lparr>gcs_name = ''reports/a.pdf'', name = ''Report A'', industry = ''Retail'',
            topics = [''ai''], url = None\<rparr>"

definition fresh_state :: stream_state where
  "fresh_state =
     \<lparr>messages = [], input = '' hi '', loading = False, elapsed = 0, timer_running = False,
      selectedIndustries = [], followUpMsgId = None, followUpSources = [],
      followUpContextId = None, msgIdCounter = 0, elapsedRef = 0, loadingPhase = None,
      loadingDocs = [], loadingTotal = 0\<rparr>"

definition pinned_state :: stream_state where
  "pinned_state =
     fresh_state\<lparr>followUpMsgId := Some 2, followUpSources := [doc_a],
                 followUpContextId := Some ''h1''\<rparr>"

definition empty_handle_state :: stream_state where
  "empty_handle_state = pinned_state\<lparr>followUpContextId := Some []\<rparr>"

definition fresh_home :: home_state where
  "fresh_home =
     \<lparr>messages = [], input = '' hi '', loading = False, elapsed = 7, timer_running = False,
      selectedIndustries = [''Retail''], followUpMsgId = None, followUpSources = [],
      followUpContextId = None, msgIdCounter = 0\<rparr>"

definition pinned_home :: home_state where
  "pinned_home = fresh_home\<lparr>followUpMsgId := Some 2, followUpSources := [doc_a]\<rparr>"

definition sample_answer :: answer_data where
  "sample_answer =
     \<lparr>answer = ''ok'', answer_sources = [doc_a], answer_context_id = Some ''h1''\<rparr>"

definition report_a :: doc where
  "report_a = \<lparr>doc_name = ''Report A'', doc_industry = ''Retail''\<rparr>"

definition sample_parse :: "string \<Rightarrow> event option" where
  \<open>sample_parse = map_of
     [(''{"type":"searching"}'', Searching),
      (''{"type":"found","total":1}'', Found 1),
      (''{"type":"loading","doc":{"name":"Report A","industry":"Retail"}}'',
         Loading report_a),
      (''{"type":"answering"}'', Answering),
      (''{"type":"answer","answer":"ok","sources":[{"gcs_name":"reports/a.pdf","name":"Report A","industry":"Retail","topics":["ai"],"url":null}],"context_id":"h1"}'',
         Answer sample_answer),
      (''{"type":"error","message":"boom"}'', Error ''boom'')]\<close>

definition good_stream :: "string list" where
  \<open>good_stream =
     [''data: {"type":"searching"}\<newline>\<newline>data: {"type":"fo'',
      ''und","total":1}\<newline>\<newline>'',
      ''data: {"type":"loading","doc":{"name":"Report A","industry":"Retail"}}\<newline>\<newline>data: {"type":"answering"}\<newline>'',
      ''\<newline>data: {"type":"answer","answer":"ok","sources":[{"gcs_name":"reports/a.pdf","name":"Repo'',
      ''rt A","industry":"Retail","topics":["ai"],"url":null}],"context_id":"h1"}\<newline>\<newline>'']\<close>


definition streaming_home :: stream_state where
  "streaming_home = fresh_state\<lparr>selectedIndustries := [''Retail'']\<rparr>"

definition two_sends :: "action list" where
  "two_sends =
     [Send [1, 0, 0, 0, 2] (HttpResponse True good_stream Done), Type ''and then?'',
      Send [3] FetchRejected]"

text \<open>Three chunks of two documents, collaborators that always succeed, and a cache
  that holds the three chunks under the handle \<open>h1\<close>.\<close>

definition chunk_a1 :: chunk_ref where
  "chunk_a1 = \<lparr>chunk_id = ''a#1'', document_id = ''reports/a.pdf'', chunk_text = ''Retail media grows.'',
               chunk_industry = ''Retail'', chunk_topics = [''media''], chunk_url = None, score = 93\<rparr>"

definition chunk_b1 :: chunk_ref where
  "chunk_b1 = \<lparr>chunk_id = ''b#4'', document_id = ''reports/b.pdf'', chunk_text = ''Agents shop.'',
               chunk_industry = ''Technology'', chunk_topics = [''ai''], chunk_url = None, score = 90\<rparr>"

definition chunk_a2 :: chunk_ref where
  "chunk_a2 = \<lparr>chunk_id = ''a#7'', document_id = ''reports/a.pdf'', chunk_text = ''Loyalty matters.'',
               chunk_industry = ''Retail'', chunk_topics = [''loyalty''], chunk_url = None, score = 71\<rparr>"


definition sample_collaborators :: collaborators where
  "sample_collaborators =
     \<lparr>retrieve = (\<lambda>q f. Inr [chunk_a1, chunk_b1, chunk_a2]),
      language_model = (\<lambda>q cs. Inr ''Three trends.''),
      document_name = (\<lambda>d. d),
      fresh_handle = (\<lambda>c. ''h2'')\<rparr>"

definition sample_config :: config where
  "sample_config = \<lparr>ttl = 3600, capacity = 8, budget = 1000\<rparr>"

definition warm_cache :: cache where
  "warm_cache =
     [(''h1'', \<lparr>handle_id = ''h1'', context_chunks = [chunk_a1, chunk_b1, chunk_a2],
                created = 100, originating_question = ''What trends?''\<rparr>)]"

section \<open>The reader loop reads the stream as a whole\<close>

lemma split_nl_ne: "split_nl s \<noteq> []"
  by (induction s) (auto split: list.splits)

lemma split_nl_append:
  "split_nl (a @ b) = butlast (split_nl a) @ split_nl (last (split_nl a) @ b)"
  by (induction a) (auto split: list.splits simp: split_nl_ne)

lemma butlast_split_nl_append:
  "butlast (split_nl (a @ b)) =
     butlast (split_nl a) @ butlast (split_nl (last (split_nl a) @ b))"
  by (subst split_nl_append) (simp add: butlast_append split_nl_ne)

lemma split_nl_no_newline: "CHR 0x0A \<notin> set b \<Longrightarrow> split_nl b = [b]"
  by (induction b) auto

lemma last_split_nl_no_newline: "CHR 0x0A \<notin> set (last (split_nl s))"
  by (induction s) (auto split: list.splits simp: split_nl_ne)

lemma handle_lines_append:
  "handle_lines parse h (xs @ ys) s =
     (case handle_lines parse h xs s of
        Threw s' \<Rightarrow> Threw s'
      | Normal s' \<Rightarrow> handle_lines parse h ys s')"
  by (induction xs arbitrary: s) (auto split: option.splits outcome.splits)

text \<open>The buffer never holds a newline, and the loop handles exactly the complete lines
  of the buffer followed by all the chunks.\<close>

lemma read_loop_whole:
  "CHR 0x0A \<notin> set buffer \<Longrightarrow>
   read_loop parse h buffer chunks ending s =
     (case handle_lines parse h (butlast (split_nl (buffer @ concat chunks))) s of
        Threw s' \<Rightarrow> Threw s'
      | Normal s' \<Rightarrow> (case ending of Done \<Rightarrow> Normal s' | ReadError \<Rightarrow> Threw s'))"
proof (induction chunks arbitrary: buffer s)
  case Nil
  then show ?case by (simp add: split_nl_no_newline)
next
  case (Cons c cs)
  let ?L = "split_nl (buffer @ c)"
  have nl: "CHR 0x0A \<notin> set (last ?L)" by (rule last_split_nl_no_newline)
  have whole: "butlast (split_nl (buffer @ concat (c # cs)))
                 = butlast ?L @ butlast (split_nl (last ?L @ concat cs))"
    using butlast_split_nl_append [of "buffer @ c" "concat cs"] by simp
  show ?case
    unfolding whole handle_lines_append
    by (simp add: Let_def split_nl_ne Cons.IH [OF nl] split: outcome.splits)
qed

lemma handle_lines_run_events:
  "handle_lines parse h lines s =
     run_events h (map (\<lambda>line. parse (drop 6 line)) (filter (prefix ''data: '') lines)) s"
  by (induction lines arbitrary: s) (auto split: option.splits outcome.splits)

lemma read_loop_events:
  "read_loop parse h [] chunks ending s =
     (case run_events h (sse_events parse (concat chunks)) s of
        Threw s' \<Rightarrow> Threw s'
      | Normal s' \<Rightarrow> (case ending of Done \<Rightarrow> Normal s' | ReadError \<Rightarrow> Threw s'))"
  using read_loop_whole [of "[]" parse h chunks ending s]
  by (simp add: handle_lines_run_events sse_events_def)

lemma run_events_append:
  "run_events h (xs @ ys) s =
     (case run_events h xs s of Threw s' \<Rightarrow> Threw s' | Normal s' \<Rightarrow> run_events h ys s')"
  by (induction h xs s rule: run_events.induct) (auto split: outcome.splits)

lemma good_stream_events:
  "sse_events sample_parse (concat good_stream) =
     map Some (Searching # Found 1 # map Loading [report_a] @ [Answering, Answer sample_answer])"
  by (simp add: sse_events_def good_stream_def sample_parse_def)


section \<open>What a send leaves alone, and what the events do to the state\<close>

lemma funpow_tick:
  "(tick ^^ n) s =
     s\<lparr>elapsed := elapsed s + n,
       elapsedRef := (if n = 0 then elapsedRef s else elapsed s + n)\<rparr>"
  by (induction n) (auto simp: tick_def)

lemma await_fields:
  "messages (current (await r)) = messages (current r)"
  "msgIdCounter (current (await r)) = msgIdCounter (current r)"
  "follow_up (current (await r)) = follow_up (current r)"
  "loadingDocs (current (await r)) = loadingDocs (current r)"
  "loadingTotal (current (await r)) = loadingTotal (current r)"
  "loadingPhase (current (await r)) = loadingPhase (current r)"
  "history (await r) = history r"
  "waits (await r) = tl (waits r)"
  by (simp_all add: await_def funpow_tick follow_up_def)

lemma await_elapsed:
  "elapsed (current (await r)) = elapsed (current r) + (case waits r of [] \<Rightarrow> 0 | n # _ \<Rightarrow> n)"
  "elapsedRef (current r) = elapsed (current r) \<Longrightarrow>
     elapsedRef (current (await r)) = elapsed (current (await r))"
  by (simp_all add: await_def funpow_tick)

lemma arrive_fields:
  "current (arrive t r) = t" "history (arrive t r) = history r @ [t]" "waits (arrive t r) = waits r"
  by (simp_all add: arrive_def)

text \<open>The event's own effect, apart from the clock.\<close>

lemma handle_event_follow_up:
  "follow_up (case handle_event e s of Threw t \<Rightarrow> t | Normal t \<Rightarrow> t) = follow_up s"
  by (cases e) (auto simp: follow_up_def)

lemma handle_event_keeps_messages:
  "\<forall>a. e \<noteq> Answer a \<Longrightarrow>
   messages (case handle_event e s of Threw t \<Rightarrow> t | Normal t \<Rightarrow> t) = messages s
   \<and> msgIdCounter (case handle_event e s of Threw t \<Rightarrow> t | Normal t \<Rightarrow> t) = msgIdCounter s"
  by (cases e) auto

lemma handle_event_keeps_clock:
  "elapsed (case handle_event e s of Threw t \<Rightarrow> t | Normal t \<Rightarrow> t) = elapsed s
   \<and> elapsedRef (case handle_event e s of Threw t \<Rightarrow> t | Normal t \<Rightarrow> t) = elapsedRef s"
  by (cases e) auto

text \<open>One timed event: the state it arrives in is the last entry of the history.\<close>

lemma timed_event_cases:
  obtains t where "handle_event e (current (await r)) = Threw t"
                  "timed_event e r = Threw (arrive t (await r))"
        | t where "handle_event e (current (await r)) = Normal t"
                  "timed_event e r = Normal (arrive t (await r))"
  by (cases "handle_event e (current (await r))") (auto simp: timed_event_def)

lemma timed_event_follow_up:
  "follow_up (current (case timed_event e r of Threw t \<Rightarrow> t | Normal t \<Rightarrow> t))
     = follow_up (current r)"
  using handle_event_follow_up [of e "current (await r)"]
  by (cases e r rule: timed_event_cases) (simp_all add: arrive_fields await_fields)

lemma timed_event_keeps_messages:
  "\<forall>a. e \<noteq> Answer a \<Longrightarrow>
   messages (current (case timed_event e r of Threw t \<Rightarrow> t | Normal t \<Rightarrow> t))
     = messages (current r)
   \<and> msgIdCounter (current (case timed_event e r of Threw t \<Rightarrow> t | Normal t \<Rightarrow> t))
     = msgIdCounter (current r)"
  using handle_event_keeps_messages [of e "current (await r)"]
  by (cases e r rule: timed_event_cases) (simp_all add: arrive_fields await_fields)

lemma run_events_follow_up:
  "follow_up (current (case run_events timed_event evs r of Threw t \<Rightarrow> t | Normal t \<Rightarrow> t))
     = follow_up (current r)"
proof (induction evs arbitrary: r)
  case Nil
  show ?case by simp
next
  case (Cons x evs)
  show ?case
  proof (cases x)
    case None
    then show ?thesis by simp
  next
    case (Some e)
    show ?thesis
      using timed_event_follow_up [of e r] Cons.IH Some
      by (cases "timed_event e r") auto
  qed
qed


lemma progress_only:
  "list_all is_progress pre \<Longrightarrow>
   \<exists>t. run_events timed_event (map Some pre) r = Normal t
       \<and> messages (current t) = messages (current r)
       \<and> msgIdCounter (current t) = msgIdCounter (current r)"
proof (induction pre arbitrary: r)
  case Nil
  show ?case by simp
next
  case (Cons e pre)
  from Cons.prems have p: "is_progress e" and rest: "list_all is_progress pre" by simp_all
  from p have ne: "\<forall>a. e \<noteq> Answer a" by (auto simp: is_progress_def)
  from p obtain u where "handle_event e (current (await r)) = Normal u"
    by (cases e) (auto simp: is_progress_def)
  then have n: "timed_event e r = Normal (arrive u (await r))"
    by (simp add: timed_event_def)
  with timed_event_keeps_messages [OF ne, of r] Cons.IH [OF rest, of "arrive u (await r)"]
  show ?case by auto
qed

lemma answer_event:
  "\<exists>w. timed_event (Answer a) r =
     Normal (arrive ((current (await r))\<lparr>msgIdCounter := msgIdCounter (current r) + 1,
                 messages := messages (current r) @
                   [answer_message (msgIdCounter (current r) + 1) a w]\<rparr>) (await r))
       \<and> w = elapsedRef (current (await r))"
  by (simp add: timed_event_def await_fields)

lemma begin_send_fields:
  "loadingDocs (begin_send q s) = []"
  "messages (begin_send q s) = messages s @ [user_message (msgIdCounter s + 1) q]"
  "msgIdCounter (begin_send q s) = msgIdCounter s + 1"
  "elapsedRef (begin_send q s) = 0"
  "elapsed (begin_send q s) = 0"
  "follow_up (begin_send q s) = follow_up s"
  by (simp_all add: begin_send_def follow_up_def)

lemma finally_block_fields:
  "messages (finally_block t) = messages t"
  "loading (finally_block t) = False"
  "loadingPhase (finally_block t) = None"
  "loadingDocs (finally_block t) = []"
  "loadingTotal (finally_block t) = 0"
  "timer_running (finally_block t) = False"
  "follow_up (finally_block t) = follow_up t"
  by (simp_all add: finally_block_def follow_up_def)

lemma catch_block_fields:
  "messages (catch_block t) = messages t @ [fallback_message (msgIdCounter t + 1)]"
  "follow_up (catch_block t) = follow_up t"
  by (simp_all add: catch_block_def follow_up_def)

text \<open>The two ways a send that goes out can end, with the loop read as a whole.\<close>

lemma handleSend_run_ok:
  assumes "trim (input s) \<noteq> []" and "\<not> loading s"
  shows "handleSend_run parse ws (HttpResponse True chunks ending) s =
     (let r1 = \<lparr>current = begin_send (trim (input s)) s,
                 history = [begin_send (trim (input s)) s], waits = ws\<rparr>;
          r2 = (case run_events timed_event (sse_events parse (concat chunks)) r1 of
                  Threw r \<Rightarrow> arrive (catch_block (current (await r))) (await r)
                | Normal r \<Rightarrow>
                    (case ending of
                       Done \<Rightarrow> await r
                     | ReadError \<Rightarrow> arrive (catch_block (current (await r))) (await r)))
      in (arrive (finally_block (current r2)) r2,
          Some \<lparr>path = ''/api/query-stream'', req_body = stream_body (trim (input s)) s\<rparr>))"
  using assms
  by (simp add: handleSend_run_def Let_def read_loop_events
           split: outcome.splits stream_end.splits)

lemma handleSend_run_thrown:
  assumes "trim (input s) \<noteq> []" and "\<not> loading s"
      and "res = FetchRejected \<or> res = HttpNoBody ok \<or> res = HttpResponse False chunks ending"
  shows "handleSend_run parse ws res s =
     (let r1 = \<lparr>current = begin_send (trim (input s)) s,
                 history = [begin_send (trim (input s)) s], waits = ws\<rparr>;
          r2 = arrive (catch_block (current (await r1))) (await r1)
      in (arrive (finally_block (current r2)) r2,
          Some \<lparr>path = ''/api/query-stream'', req_body = stream_body (trim (input s)) s\<rparr>))"
  using assms by (auto simp: handleSend_run_def Let_def)

lemma handleSend_request:
  "snd (handleSend parse ws res s) = Some r \<Longrightarrow> req_body r = stream_body (trim (input s)) s"
  by (auto simp: handleSend_def handleSend_run_def Let_def split: if_splits)


lemma handleSend_follow_up: "follow_up (fst (handleSend parse ws res s)) = follow_up s"
proof (cases "trim (input s) = [] \<or> loading s")
  case True
  then show ?thesis by (auto simp: handleSend_def handleSend_run_def Let_def)
next
  case False
  then have go: "trim (input s) \<noteq> []" "\<not> loading s" by simp_all
  let ?r1 = "\<lparr>current = begin_send (trim (input s)) s,
               history = [begin_send (trim (input s)) s], waits = ws\<rparr>"
  have thrown: "follow_up (fst (handleSend parse ws res s)) = follow_up s"
    if "res = FetchRejected \<or> res = HttpNoBody ok \<or> res = HttpResponse False chunks ending"
    for ok chunks ending
    using handleSend_run_thrown [OF go that, of parse ws]
    by (simp add: handleSend_def Let_def arrive_fields finally_block_fields catch_block_fields
                  await_fields begin_send_fields)
  show ?thesis
  proof (cases res)
    case FetchRejected
    then show ?thesis using thrown by blast
  next
    case (HttpNoBody ok)
    then show ?thesis using thrown by blast
  next
    case (HttpResponse ok chunks ending)
    show ?thesis
    proof (cases ok)
      case False
      with HttpResponse show ?thesis using thrown by blast
    next
      case True
      have "follow_up (current (case run_events timed_event (sse_events parse (concat chunks)) ?r1
                                  of Threw t \<Rightarrow> t | Normal t \<Rightarrow> t)) = follow_up s"
        using run_events_follow_up [of "sse_events parse (concat chunks)" ?r1]
        by (simp add: begin_send_fields)
      with True HttpResponse show ?thesis
        by (simp add: handleSend_def handleSend_run_ok [OF go] Let_def arrive_fields
                      finally_block_fields catch_block_fields await_fields
                 split: outcome.splits stream_end.splits)
    qed
  qed
qed

lemma stream_body_mode:
  "follow_up s' = follow_up s \<Longrightarrow>
   mode_fields (stream_body q' s') = mode_fields (stream_body q s)"
  by (auto simp: follow_up_def stream_body_def mode_fields_def)

lemma session_follow_up:
  "follow_up (fst (session parse acts s)) = follow_up s
   \<and> (\<forall>r \<in> set (snd (session parse acts s)).
         mode_fields (req_body r) = mode_fields (stream_body q s))"
proof (induction parse acts s rule: session.induct)
  case (1 parse s)
  show ?case by simp
next
  case (2 parse v acts s)
  have "follow_up (onChange v s) = follow_up s" by (simp add: follow_up_def onChange_def)
  with 2 stream_body_mode [of "onChange v s" s q q] show ?case by simp
next
  case (3 parse ws res acts s)
  obtain s' r where h: "handleSend parse ws res s = (s', r)"
    by (cases "handleSend parse ws res s")
  obtain s'' rs where k: "session parse acts s' = (s'', rs)" by (cases "session parse acts s'")
  from h have fu: "follow_up s' = follow_up s"
    using handleSend_follow_up [of parse ws res s] by simp
  from 3 [OF h [symmetric] refl] k
  have ih: "follow_up s'' = follow_up s'"
    "\<forall>x \<in> set rs. mode_fields (req_body x) = mode_fields (stream_body q s')" by auto
  have first: "r = Some x \<Longrightarrow> mode_fields (req_body x) = mode_fields (stream_body q s)" for x
    using handleSend_request [of parse ws res s x] h
      stream_body_mode [of s s "trim (input s)" q] by simp
  show ?case
    using h k ih fu first stream_body_mode [OF fu, of q q]
    by (auto split: option.splits)
qed

lemma sum_take_Suc:
  "sum_list (take (Suc m) ws) = (case ws of [] \<Rightarrow> 0 | n # _ \<Rightarrow> n) + sum_list (take m (tl ws))"
  for ws :: "nat list"
  by (cases ws) simp_all

text \<open>A run that handles every event: the history grows by one state per event, and the
  clock has advanced by the waits that were made.\<close>

lemma run_events_clock:
  "run_events timed_event evs r = Normal R \<Longrightarrow>
     (\<exists>ext. history R = history r @ ext \<and> length ext = length evs)
     \<and> waits R = drop (length evs) (waits r)
     \<and> elapsed (current R) = elapsed (current r) + sum_list (take (length evs) (waits r))
     \<and> (elapsedRef (current r) = elapsed (current r)
          \<longrightarrow> elapsedRef (current R) = elapsed (current R))"
proof (induction evs arbitrary: r)
  case Nil
  then show ?case by simp
next
  case (Cons x evs)
  from Cons.prems obtain e where x: "x = Some e" by (cases x) auto
  from Cons.prems x obtain t where
    t: "handle_event e (current (await r)) = Normal t"
       "run_events timed_event evs (arrive t (await r)) = Normal R"
    by (cases e r rule: timed_event_cases) auto
  let ?r' = "arrive t (await r)"
  from handle_event_keeps_clock [of e "current (await r)"] t(1)
  have clock: "elapsed t = elapsed (current (await r))"
      "elapsedRef t = elapsedRef (current (await r))"
    by simp_all
  from Cons.IH [OF t(2)] obtain ext where
    ih: "history R = history ?r' @ ext" "length ext = length evs"
        "waits R = drop (length evs) (waits ?r')"
        "elapsed (current R) = elapsed (current ?r') + sum_list (take (length evs) (waits ?r'))"
        "elapsedRef (current ?r') = elapsed (current ?r')
           \<longrightarrow> elapsedRef (current R) = elapsed (current R)"
    by blast
  have a: "\<exists>ext'. history R = history r @ ext' \<and> length ext' = length (x # evs)"
    using ih(1,2) by (simp add: arrive_fields await_fields)
  have b: "waits R = drop (length (x # evs)) (waits r)"
    using ih(3) by (simp add: arrive_fields await_fields drop_Suc)
  have c: "elapsed (current R)
             = elapsed (current r) + sum_list (take (length (x # evs)) (waits r))"
    using ih(4) clock(1)
    by (simp add: arrive_fields await_fields await_elapsed sum_take_Suc)
  have d: "elapsedRef (current r) = elapsed (current r)
             \<longrightarrow> elapsedRef (current R) = elapsed (current R)"
    using ih(5) clock await_elapsed(2) [of r] by (simp add: arrive_fields)
  from a b c d show ?case by blast
qed

lemma all_done_mark_last_done:
  "map (\<lambda>d. d\<lparr>doc_done := True\<rparr>) (mark_last_done prev) = map (\<lambda>d. d\<lparr>doc_done := True\<rparr>) prev"
proof -
  have "map (\<lambda>d. d\<lparr>doc_done := True\<rparr>) (mark_last_done prev)
          = map ((\<lambda>d. d\<lparr>doc_done := True\<rparr>) \<circ> snd) (enumerate 0 prev)"
    by (auto simp: mark_last_done_def)
  also have "\<dots> = map (\<lambda>d. d\<lparr>doc_done := True\<rparr>) (map snd (enumerate 0 prev))"
    by (simp only: map_map)
  finally show ?thesis by simp
qed

lemma run_loading:
  "\<exists>R. run_events timed_event (map (\<lambda>d. Some (Loading d)) ds) r = Normal R
      \<and> map (\<lambda>d. d\<lparr>doc_done := True\<rparr>) (loadingDocs (current R))
          = map (\<lambda>d. d\<lparr>doc_done := True\<rparr>) (loadingDocs (current r))
            @ map (\<lambda>d. \<lparr>doc_name = doc_name d, doc_industry = doc_industry d, doc_done = True\<rparr>) ds
      \<and> loadingTotal (current R) = loadingTotal (current r)
      \<and> messages (current R) = messages (current r)
      \<and> msgIdCounter (current R) = msgIdCounter (current r)"
proof (induction ds arbitrary: r)
  case Nil
  show ?case by simp
next
  case (Cons d ds)
  let ?t = "(current (await r))\<lparr>loadingDocs := mark_last_done (loadingDocs (current (await r))) @
        [\<lparr>doc_name = doc_name d, doc_industry = doc_industry d, doc_done = False\<rparr>]\<rparr>"
  let ?r' = "arrive ?t (await r)"
  have step: "timed_event (Loading d) r = Normal ?r'"
    by (simp add: timed_event_def)
  from Cons.IH [of ?r'] obtain R where
    R: "run_events timed_event (map (\<lambda>d. Some (Loading d)) ds) ?r' = Normal R"
       "map (\<lambda>d. d\<lparr>doc_done := True\<rparr>) (loadingDocs (current R))
          = map (\<lambda>d. d\<lparr>doc_done := True\<rparr>) (loadingDocs (current ?r'))
            @ map (\<lambda>d. \<lparr>doc_name = doc_name d, doc_industry = doc_industry d, doc_done = True\<rparr>) ds"
       "loadingTotal (current R) = loadingTotal (current ?r')"
       "messages (current R) = messages (current ?r')"
       "msgIdCounter (current R) = msgIdCounter (current ?r')"
    by blast
  have "run_events timed_event (map (\<lambda>d. Some (Loading d)) (d # ds)) r = Normal R"
    using step R(1) by simp
  moreover have "map (\<lambda>d. d\<lparr>doc_done := True\<rparr>) (loadingDocs (current R))
          = map (\<lambda>d. d\<lparr>doc_done := True\<rparr>) (loadingDocs (current r))
            @ map (\<lambda>d. \<lparr>doc_name = doc_name d, doc_industry = doc_industry d, doc_done = True\<rparr>) (d # ds)"
    using R(2) by (simp add: arrive_fields await_fields all_done_mark_last_done)
  moreover have "loadingTotal (current R) = loadingTotal (current r)"
      "messages (current R) = messages (current r)"
      "msgIdCounter (current R) = msgIdCounter (current r)"
    using R(3,4,5) by (simp_all add: arrive_fields await_fields)
  ultimately show ?case by blast
qed

text \<open>The run on searching, found, the loading events, answering and the answer.\<close>

lemma run_well_formed:
  assumes "history r = [current r]" and "loadingDocs (current r) = []"
      and "elapsedRef (current r) = elapsed (current r)"
  shows "\<exists>R. run_events timed_event
            (map Some (Searching # Found n # map Loading ds @ [Answering, Answer a])) r = Normal R
      \<and> length (history R) = length ds + 5
      \<and> loadingTotal (history R ! 2) = n
      \<and> loadingPhase (history R ! 2) = Some PLoading
      \<and> loadingDocs (history R ! (length ds + 3))
          = map (\<lambda>d. \<lparr>doc_name = doc_name d, doc_industry = doc_industry d, doc_done = True\<rparr>) ds
      \<and> loadingPhase (history R ! (length ds + 3)) = Some PAnswering
      \<and> messages (current R) = messages (current r) @
          [answer_message (msgIdCounter (current r) + 1) a
             (elapsed (current r) + sum_list (take (length ds + 4) (waits r)))]"
proof -
  define t1 where "t1 = (current (await r))\<lparr>loadingPhase := Some PSearching\<rparr>"
  define r1 where "r1 = arrive t1 (await r)"
  define t2 where "t2 = (current (await r1))\<lparr>loadingTotal := n, loadingPhase := Some PLoading\<rparr>"
  define r2 where "r2 = arrive t2 (await r1)"
  have two: "run_events timed_event [Some Searching, Some (Found n)] r = Normal r2"
    by (simp add: timed_event_def r2_def t2_def r1_def t1_def)
  have h2: "history r2 = [current r, t1, t2]"
    using assms(1) by (simp add: r2_def r1_def arrive_fields await_fields)
  have f2: "loadingDocs (current r2) = []" "messages (current r2) = messages (current r)"
      "msgIdCounter (current r2) = msgIdCounter (current r)"
    using assms(2) by (simp_all add: r2_def t2_def r1_def t1_def arrive_fields await_fields)
  from run_loading [of ds r2] obtain R3 where
    R3: "run_events timed_event (map (\<lambda>d. Some (Loading d)) ds) r2 = Normal R3"
        "map (\<lambda>d. d\<lparr>doc_done := True\<rparr>) (loadingDocs (current R3))
          = map (\<lambda>d. \<lparr>doc_name = doc_name d, doc_industry = doc_industry d, doc_done = True\<rparr>) ds"
        "messages (current R3) = messages (current r)"
        "msgIdCounter (current R3) = msgIdCounter (current r)"
    using f2 by auto
  from run_events_clock [OF R3(1)] obtain ext where
    ext: "history R3 = [current r, t1, t2] @ ext" "length ext = length ds"
    using h2 by auto
  define t4 where "t4 = (current (await R3))\<lparr>loadingPhase := Some PAnswering,
               loadingDocs := map (\<lambda>d. d\<lparr>doc_done := True\<rparr>) (loadingDocs (current (await R3)))\<rparr>"
  define r4 where "r4 = arrive t4 (await R3)"
  define t5 where "t5 = (current (await r4))\<lparr>msgIdCounter := msgIdCounter (current (await r4)) + 1,
               messages := messages (current (await r4)) @
                 [answer_message (msgIdCounter (current (await r4)) + 1) a
                    (elapsedRef (current (await r4)))]\<rparr>"
  define r5 where "r5 = arrive t5 (await r4)"
  have split: "map Some (Searching # Found n # map Loading ds @ [Answering, Answer a])
     = [Some Searching, Some (Found n)] @ map (\<lambda>d. Some (Loading d)) ds
       @ [Some Answering, Some (Answer a)]"
    by simp
  have run: "run_events timed_event
       (map Some (Searching # Found n # map Loading ds @ [Answering, Answer a])) r = Normal r5"
    unfolding split run_events_append using two R3(1)
    by (simp add: timed_event_def r5_def t5_def r4_def t4_def)
  have h5: "history r5 = [current r, t1, t2] @ ext @ [t4, t5]"
    using ext(1) by (simp add: r5_def r4_def arrive_fields await_fields)
  have len: "length (history r5) = length ds + 5"
    unfolding h5 using ext(2) by simp
  have at2: "history r5 ! 2 = t2"
    unfolding h5 by simp
  have at4: "history r5 ! (length ds + 3) = t4"
    unfolding h5 using ext(2) by (simp add: nth_append)
  have count: "length (map Some (Searching # Found n # map Loading ds @ [Answering, Answer a]))
                 = length ds + 4"
    by simp
  from run_events_clock [OF run] assms(3)
  have clock: "elapsedRef (current r5) = elapsed (current r5)"
      "elapsed (current r5) = elapsed (current r) + sum_list (take (length ds + 4) (waits r))"
    unfolding count by blast+
  have ref: "elapsedRef (current (await r4)) = elapsedRef (current r5)"
    by (simp add: r5_def t5_def arrive_fields)
  have m4: "messages (current (await r4)) = messages (current r)"
      "msgIdCounter (current (await r4)) = msgIdCounter (current r)"
    using R3(3,4) by (simp_all add: r4_def t4_def arrive_fields await_fields)
  have waited: "elapsedRef (current (await r4))
                  = elapsed (current r) + sum_list (take (length ds + 4) (waits r))"
    using ref clock by (simp only:)
  have "messages (current r5) = messages (current (await r4)) @
          [answer_message (msgIdCounter (current (await r4)) + 1) a
             (elapsedRef (current (await r4)))]"
    by (simp add: r5_def t5_def arrive_fields)
  then have msgs: "messages (current r5) = messages (current r) @
          [answer_message (msgIdCounter (current r) + 1) a
             (elapsed (current r) + sum_list (take (length ds + 4) (waits r)))]"
    by (simp only: m4 waited)
  have docs: "loadingDocs t4
          = map (\<lambda>d. \<lparr>doc_name = doc_name d, doc_industry = doc_industry d, doc_done = True\<rparr>) ds"
    using R3(2) by (simp add: t4_def await_fields)
  have phases: "loadingTotal t2 = n" "loadingPhase t2 = Some PLoading"
      "loadingPhase t4 = Some PAnswering"
    by (simp_all add: t2_def t4_def)
  show ?thesis
    using run len at2 at4 msgs docs phases by simp
qed

lemma handleSend_buffered_ok:
  assumes "trim (input b) \<noteq> []" and "\<not> loading b"
  shows "handleSend_buffered waited (BHttpResponse True (Some a)) b =
     (b\<lparr>msgIdCounter := msgIdCounter b + 2,
        messages := messages b @ [user_message (msgIdCounter b + 1) (trim (input b)),
                                  answer_message (msgIdCounter b + 2) a (elapsed b)],
        input := [], elapsed := waited, loading := False, timer_running := False\<rparr>,
      Some \<lparr>path = ''/api/query'', req_body = buffered_body (trim (input b)) b\<rparr>)"
proof -
  have t: "(tick_buffered ^^ n) s = s\<lparr>elapsed := elapsed s + n\<rparr>" for n s
    by (induction n) (simp_all add: tick_buffered_def)
  show ?thesis using assms by (simp add: handleSend_buffered_def Let_def t)
qed

lemma good_parsed:
  "parsed_events sample_parse good_stream
     = Normal [Searching, Found 1, Loading report_a, Answering, Answer sample_answer]"
  by (simp add: parsed_events_def read_loop_events good_stream_events record_event_def)

lemma fresh_request:
  "snd (handleSend parse ws FetchRejected fresh_state)
     = Some \<lparr>path = ''/api/query-stream'',
             req_body = [(''question'', JString ''hi''), (''industry_filter'', JNull)]\<rparr>"
  by (simp add: handleSend_def handleSend_run_def Let_def fresh_state_def trim_def is_space_def
                stream_body_def)

lemma two_sends_requests:
  "map req_body (snd (session sample_parse two_sends pinned_state))
     = [[(''question'', JString ''hi''), (''context_id'', JString ''h1'')],
        [(''question'', JString ''and then?''), (''context_id'', JString ''h1'')]]"
  by (simp add: two_sends_def handleSend_def handleSend_run_def Let_def pinned_state_def
        fresh_state_def trim_def is_space_def read_loop_events good_stream_events
        timed_event_def await_def arrive_def funpow_tick begin_send_def finally_block_def
        catch_block_def stream_body_def truthy_def jnullable_def mark_last_done_def onChange_def)

section \<open>Properties of the client\<close>

text \<open>
  C10. If the trimmed input is empty or a query is already in flight, \<open>handleSend\<close>
  returns at once: the state is the one it was called in (so no user message is
  appended and no cell changes) and no request is sent.
\<close>

theorem handleSend_guard:
  "trim (input s) = [] \<or> loading s \<Longrightarrow> handleSend parse ws res s = (s, None)"
  by (auto simp: handleSend_def handleSend_run_def Let_def)

theorem handleSend_guard_witness:
  "(trim (input (fresh_state\<lparr>input := ''  ''\<rparr>)) = []
      \<or> loading (fresh_state\<lparr>input := ''  ''\<rparr>))
   \<and> handleSend sample_parse [1, 0, 0, 0, 2] (HttpResponse True good_stream Done)
         (fresh_state\<lparr>input := ''  ''\<rparr>)
       = (fresh_state\<lparr>input := ''  ''\<rparr>, None)"
proof -
  have b: "trim (input (fresh_state\<lparr>input := ''  ''\<rparr>)) = []
             \<or> loading (fresh_state\<lparr>input := ''  ''\<rparr>)"
    by (simp add: fresh_state_def trim_def is_space_def)
  show ?thesis
    using b handleSend_guard [OF b, of sample_parse "[1, 0, 0, 0, 2]"
                                "HttpResponse True good_stream Done"]
    by simp
qed

text \<open>
  C2. Every request the streaming \<open>handleSend\<close> sends has a body with the trimmed
  question and exactly one of the fields \<open>context_id\<close>, \<open>pinned_gcs_names\<close> and
  \<open>industry_filter\<close>; \<open>pinned_gcs_names\<close> and \<open>industry_filter\<close> are never both there, and
  \<open>industry_filter\<close> is \<open>null\<close> exactly when nothing is pinned and no industry is selected.
\<close>

theorem one_retrieval_mode:
  assumes "snd (handleSend parse ws res s) = Some r"
  shows "field ''question'' (req_body r) = Some (JString (trim (input s)))
       \<and> length (filter (\<lambda>k. field k (req_body r) \<noteq> None) mode_keys) = 1
       \<and> (field ''pinned_gcs_names'' (req_body r) = None
            \<or> field ''industry_filter'' (req_body r) = None)
       \<and> (field ''industry_filter'' (req_body r) = Some JNull
            \<longleftrightarrow> followUpSources s = [] \<and> selectedIndustries s = [])"
proof -
  from assms have "req_body r = stream_body (trim (input s)) s"
    by (rule handleSend_request)
  then show ?thesis
    by (auto simp: stream_body_def field_def mode_keys_def jnullable_def truthy_def
             split: option.splits)
qed

theorem one_retrieval_mode_witness:
  "snd (handleSend sample_parse [3] FetchRejected fresh_state)
     = Some \<lparr>path = ''/api/query-stream'',
             req_body = [(''question'', JString ''hi''), (''industry_filter'', JNull)]\<rparr>
   \<and> length (filter (\<lambda>k. field k [(''question'', JString ''hi''), (''industry_filter'', JNull)]
                          \<noteq> None) mode_keys) = 1"
  using fresh_request [of sample_parse "[3]"]
    one_retrieval_mode [OF fresh_request [of sample_parse "[3]"]]
  by simp

text \<open>
  C3, as stated, at a handle that is the empty string: sources are pinned and
  \<open>followUpContextId\<close> is not \<open>null\<close>, yet the request carries \<open>pinned_gcs_names\<close> and no
  \<open>context_id\<close>, because the test on line 126 is for a truthy handle.
\<close>

theorem context_handle_counterexample:
  "followUpSources empty_handle_state \<noteq> []
   \<and> followUpContextId empty_handle_state \<noteq> None
   \<and> snd (handleSend sample_parse [3] FetchRejected empty_handle_state)
       = Some \<lparr>path = ''/api/query-stream'',
               req_body = [(''question'', JString ''hi''),
                           (''pinned_gcs_names'', JStrings [''reports/a.pdf''])]\<rparr>
   \<and> field ''context_id''
        [(''question'', JString ''hi''), (''pinned_gcs_names'', JStrings [''reports/a.pdf''])]
       = None"
  by (simp add: handleSend_def handleSend_run_def Let_def empty_handle_state_def
                pinned_state_def fresh_state_def trim_def is_space_def stream_body_def
                truthy_def doc_a_def field_def)

text \<open>
  C3, amended. For every send while follow-up sources are pinned, by the streaming and
  by the buffered client: if the handle held is a non-empty string, the body is the
  question and \<open>context_id\<close> equal to that handle, and nothing else; if the handle is
  \<open>null\<close> or the empty string, the body is the question and \<open>pinned_gcs_names\<close>, the
  \<open>gcs_name\<close> of the pinned sources in their stored order.
\<close>

theorem follow_up_request:
  "(followUpSources s \<noteq> [] \<and> snd (handleSend parse ws res s) = Some r \<longrightarrow>
      (\<forall>h. followUpContextId s = Some h \<and> h \<noteq> [] \<longrightarrow>
           req_body r = [(''question'', JString (trim (input s))), (''context_id'', JString h)])
    \<and> (followUpContextId s = None \<or> followUpContextId s = Some [] \<longrightarrow>
           req_body r = [(''question'', JString (trim (input s))),
                         (''pinned_gcs_names'', JStrings (map gcs_name (followUpSources s)))]))
 \<and> (followUpSources b \<noteq> [] \<and> snd (handleSend_buffered waited bres b) = Some r' \<longrightarrow>
      (\<forall>h. followUpContextId b = Some h \<and> h \<noteq> [] \<longrightarrow>
           req_body r' = [(''question'', JString (trim (input b))), (''context_id'', JString h)])
    \<and> (followUpContextId b = None \<or> followUpContextId b = Some [] \<longrightarrow>
           req_body r' = [(''question'', JString (trim (input b))),
                          (''pinned_gcs_names'', JStrings (map gcs_name (followUpSources b)))]))"
proof -
  have stream: "snd (handleSend parse ws res s) = Some r \<Longrightarrow>
                  req_body r = stream_body (trim (input s)) s"
    by (rule handleSend_request)
  have buffered: "snd (handleSend_buffered waited bres b) = Some r' \<Longrightarrow>
                  req_body r' = buffered_body (trim (input b)) b"
    by (auto simp: handleSend_buffered_def Let_def split: if_splits)
  show ?thesis
    using stream buffered
    by (auto simp: stream_body_def buffered_body_def truthy_def jnullable_def)
qed

theorem follow_up_request_witness:
  "followUpSources pinned_state \<noteq> []
   \<and> followUpContextId pinned_state = Some ''h1''
   \<and> snd (handleSend sample_parse [3] FetchRejected pinned_state)
       = Some \<lparr>path = ''/api/query-stream'',
               req_body = [(''question'', JString ''hi''), (''context_id'', JString ''h1'')]\<rparr>
   \<and> followUpSources pinned_home \<noteq> []
   \<and> followUpContextId pinned_home = None
   \<and> snd (handleSend_buffered 3 BFetchRejected pinned_home)
       = Some \<lparr>path = ''/api/query'',
               req_body = [(''question'', JString ''hi''),
                           (''pinned_gcs_names'', JStrings [''reports/a.pdf''])]\<rparr>"
proof -
  have s: "snd (handleSend sample_parse [3] FetchRejected pinned_state)
       = Some \<lparr>path = ''/api/query-stream'',
               req_body = stream_body ''hi'' pinned_state\<rparr>"
    by (simp add: handleSend_def handleSend_run_def Let_def pinned_state_def fresh_state_def
                  trim_def is_space_def)
  have b: "snd (handleSend_buffered 3 BFetchRejected pinned_home)
       = Some \<lparr>path = ''/api/query'', req_body = buffered_body ''hi'' pinned_home\<rparr>"
    by (simp add: handleSend_buffered_def Let_def pinned_home_def fresh_home_def trim_def
                  is_space_def)
  have i: "trim (input pinned_state) = ''hi''" "trim (input pinned_home) = ''hi''"
    by (simp_all add: pinned_state_def fresh_state_def pinned_home_def fresh_home_def
                      trim_def is_space_def)
  have f: "followUpSources pinned_state = [doc_a]" "followUpContextId pinned_state = Some ''h1''"
     "followUpSources pinned_home = [doc_a]" "followUpContextId pinned_home = None"
    by (simp_all add: pinned_state_def fresh_state_def pinned_home_def fresh_home_def)
  show ?thesis
    using follow_up_request [of pinned_state sample_parse "[3]" FetchRejected
        "\<lparr>path = ''/api/query-stream'', req_body = stream_body ''hi'' pinned_state\<rparr>"
        pinned_home 3 BFetchRejected
        "\<lparr>path = ''/api/query'', req_body = buffered_body ''hi'' pinned_home\<rparr>"]
      s b i f
    by (simp add: doc_a_def)
qed

text \<open>
  C9. For every text that ends in a newline and every two partitions of it into chunks,
  the reader loop gives the same result, whatever the handler of the events and the
  state it starts from; in particular it parses the same events in the same order.
\<close>

theorem chunking_invariant:
  assumes "concat cs = text" and "concat ds = text"
      and "text \<noteq> []" and "last text = CHR 0x0A"
  shows "read_loop parse h [] cs ending s = read_loop parse h [] ds ending s
       \<and> parsed_events parse cs = parsed_events parse ds"
  using assms by (simp add: read_loop_events parsed_events_def)

theorem chunking_invariant_witness:
  "concat good_stream = concat good_stream
   \<and> concat [concat good_stream] = concat good_stream
   \<and> concat good_stream \<noteq> [] \<and> last (concat good_stream) = CHR 0x0A
   \<and> parsed_events sample_parse [concat good_stream]
       = Normal [Searching, Found 1, Loading report_a, Answering, Answer sample_answer]
   \<and> read_loop sample_parse handle_event [] good_stream Done (begin_send ''hi'' fresh_state)
       = read_loop sample_parse handle_event [] [concat good_stream] Done
           (begin_send ''hi'' fresh_state)"
proof -
  have a: "concat good_stream = concat good_stream" by simp
  have b: "concat [concat good_stream] = concat good_stream" by simp
  have c: "concat good_stream \<noteq> []" by (simp add: good_stream_def)
  have d: "last (concat good_stream) = CHR 0x0A" by (simp add: good_stream_def)
  show ?thesis
    using a b c d good_parsed
      chunking_invariant [OF a b c d, of sample_parse handle_event Done
          "begin_send ''hi'' fresh_state"]
    by simp
qed

text \<open>
  C8. A send leaves \<open>selectedIndustries\<close>, \<open>followUpMsgId\<close>, \<open>followUpSources\<close> and
  \<open>followUpContextId\<close> as they were; so in any run of edits and sends, with no click on
  the follow-up toggle, its Clear button or the industry picker, every request carries
  the same mode field with the same value as a request sent from the first state.
\<close>

theorem send_frame:
  "selectedIndustries (fst (handleSend parse ws res s)) = selectedIndustries s
   \<and> followUpMsgId (fst (handleSend parse ws res s)) = followUpMsgId s
   \<and> followUpSources (fst (handleSend parse ws res s)) = followUpSources s
   \<and> followUpContextId (fst (handleSend parse ws res s)) = followUpContextId s
   \<and> (\<forall>r \<in> set (snd (session parse acts s)).
         mode_fields (req_body r) = mode_fields (stream_body q s))"
  using handleSend_follow_up [of parse ws res s] session_follow_up [of parse acts s q]
  by (simp add: follow_up_def)

theorem send_frame_witness:
  "followUpContextId
     (fst (handleSend sample_parse [1, 0, 0, 0, 2] (HttpResponse True good_stream Done)
             pinned_state))
     = Some ''h1''
   \<and> map req_body (snd (session sample_parse two_sends pinned_state))
       = [[(''question'', JString ''hi''), (''context_id'', JString ''h1'')],
          [(''question'', JString ''and then?''), (''context_id'', JString ''h1'')]]
   \<and> map (\<lambda>r. mode_fields (req_body r)) (snd (session sample_parse two_sends pinned_state))
       = [[(''context_id'', JString ''h1'')], [(''context_id'', JString ''h1'')]]"
proof -
  have m: "mode_fields (stream_body ''hi'' pinned_state) = [(''context_id'', JString ''h1'')]"
    by (simp add: mode_fields_def stream_body_def pinned_state_def fresh_state_def truthy_def
                  jnullable_def)
  have h: "followUpContextId pinned_state = Some ''h1''"
    by (simp add: pinned_state_def fresh_state_def)
  show ?thesis
    using m h two_sends_requests
      send_frame [of sample_parse "[1, 0, 0, 0, 2]" "HttpResponse True good_stream Done"
                     pinned_state two_sends "''hi''"]
    by (auto simp: map_eq_Cons_conv)
qed

text \<open>
  C6. For a stream whose events are searching, found with total \<open>n\<close>, loading \<open>d1\<close> to
  \<open>dk\<close>, answering and an answer \<open>a\<close>, and that then ends: the send appends the user
  message and exactly one assistant message, whose content, sources and context id are
  those of \<open>a\<close> and whose elapsed time is the number of ticks up to the answer event. The
  states the send passes through are the state the request goes out in, one state after
  each of the \<open>k + 4\<close> events, and the final state: in the state after the found event
  (position 2) \<open>loadingTotal\<close> is \<open>n\<close>, and in the state after the answering event
  (position \<open>k + 3\<close>) \<open>loadingDocs\<close> is \<open>d1\<close> to \<open>dk\<close> in that order, each marked done.
\<close>

theorem well_formed_stream:
  assumes "trim (input s) \<noteq> []" and "\<not> loading s"
      and "sse_events parse (concat chunks)
             = map Some (Searching # Found n # map Loading ds @ [Answering, Answer a])"
  shows "messages (fst (handleSend parse ws (HttpResponse True chunks Done) s))
           = messages s @ [user_message (msgIdCounter s + 1) (trim (input s)),
                           answer_message (msgIdCounter s + 2) a
                             (sum_list (take (length ds + 4) ws))]
       \<and> message_view (answer_message (msgIdCounter s + 2) a
                             (sum_list (take (length ds + 4) ws)))
           = (Assistant, answer a, Some (answer_sources a), answer_context_id a)
       \<and> length (send_history parse ws (HttpResponse True chunks Done) s) = length ds + 6
       \<and> send_history parse ws (HttpResponse True chunks Done) s ! 0
           = begin_send (trim (input s)) s
       \<and> loadingTotal (send_history parse ws (HttpResponse True chunks Done) s ! 2) = n
       \<and> loadingPhase (send_history parse ws (HttpResponse True chunks Done) s ! 2)
           = Some PLoading
       \<and> loadingDocs (send_history parse ws (HttpResponse True chunks Done) s ! (length ds + 3))
           = map (\<lambda>d. \<lparr>doc_name = doc_name d, doc_industry = doc_industry d,
                        doc_done = True\<rparr>) ds
       \<and> loadingPhase (send_history parse ws (HttpResponse True chunks Done) s ! (length ds + 3))
           = Some PAnswering
       \<and> last (send_history parse ws (HttpResponse True chunks Done) s)
           = fst (handleSend parse ws (HttpResponse True chunks Done) s)"
proof -
  define r1 where "r1 = \<lparr>current = begin_send (trim (input s)) s,
                         history = [begin_send (trim (input s)) s], waits = ws\<rparr>"
  have start: "history r1 = [current r1]" "loadingDocs (current r1) = []"
      "elapsedRef (current r1) = elapsed (current r1)"
      "messages (current r1) = messages s @ [user_message (msgIdCounter s + 1) (trim (input s))]"
      "msgIdCounter (current r1) = msgIdCounter s + 1" "elapsed (current r1) = 0"
      "waits r1 = ws" "current r1 = begin_send (trim (input s)) s"
    by (simp_all add: r1_def begin_send_fields)
  from run_well_formed [OF start(1-3), of n ds a] obtain R where
    R: "run_events timed_event
            (map Some (Searching # Found n # map Loading ds @ [Answering, Answer a])) r1 = Normal R"
       "length (history R) = length ds + 5"
       "loadingTotal (history R ! 2) = n"
       "loadingPhase (history R ! 2) = Some PLoading"
       "loadingDocs (history R ! (length ds + 3))
          = map (\<lambda>d. \<lparr>doc_name = doc_name d, doc_industry = doc_industry d, doc_done = True\<rparr>) ds"
       "loadingPhase (history R ! (length ds + 3)) = Some PAnswering"
       "messages (current R) = messages (current r1) @
          [answer_message (msgIdCounter (current r1) + 1) a
             (elapsed (current r1) + sum_list (take (length ds + 4) (waits r1)))]"
    by blast
  from run_events_clock [OF R(1)] obtain ext where
    ext: "history R = history r1 @ ext" by blast
  have first: "history R ! 0 = begin_send (trim (input s)) s"
    using ext start(1,8) by simp
  have whole: "handleSend_run parse ws (HttpResponse True chunks Done) s =
      (arrive (finally_block (current (await R))) (await R),
       Some \<lparr>path = ''/api/query-stream'', req_body = stream_body (trim (input s)) s\<rparr>)"
    using handleSend_run_ok [OF assms(1,2), of parse ws chunks Done] R(1)
    by (simp add: Let_def assms(3) r1_def)
  have hist: "send_history parse ws (HttpResponse True chunks Done) s
                = history R @ [finally_block (current (await R))]"
    by (simp add: send_history_def whole arrive_fields await_fields)
  have fin: "fst (handleSend parse ws (HttpResponse True chunks Done) s)
                = finally_block (current (await R))"
    by (simp add: handleSend_def whole arrive_fields)
  have msgs: "messages (fst (handleSend parse ws (HttpResponse True chunks Done) s))
           = messages s @ [user_message (msgIdCounter s + 1) (trim (input s)),
                           answer_message (msgIdCounter s + 2) a
                             (sum_list (take (length ds + 4) ws))]"
    using R(7) start(4-7) by (simp add: fin finally_block_fields await_fields)
  have view: "message_view (answer_message (msgIdCounter s + 2) a
                             (sum_list (take (length ds + 4) ws)))
           = (Assistant, answer a, Some (answer_sources a), answer_context_id a)"
    by (simp add: message_view_def answer_message_def)
  show ?thesis
    unfolding hist
    using msgs view R(2-6) first fin by (simp add: nth_append)
qed

theorem well_formed_stream_witness:
  "trim (input fresh_state) \<noteq> [] \<and> \<not> loading fresh_state
   \<and> sse_events sample_parse (concat good_stream)
        = map Some (Searching # Found 1 # map Loading [report_a] @ [Answering, Answer sample_answer])
   \<and> messages (fst (handleSend sample_parse [1, 0, 0, 0, 2]
                       (HttpResponse True good_stream Done) fresh_state))
        = [user_message 1 ''hi'', answer_message 2 sample_answer 3]
   \<and> length (send_history sample_parse [1, 0, 0, 0, 2]
                (HttpResponse True good_stream Done) fresh_state) = 7
   \<and> loadingTotal (send_history sample_parse [1, 0, 0, 0, 2]
                      (HttpResponse True good_stream Done) fresh_state ! 2) = 1
   \<and> loadingDocs (send_history sample_parse [1, 0, 0, 0, 2]
                     (HttpResponse True good_stream Done) fresh_state ! 4)
        = [\<lparr>doc_name = ''Report A'', doc_industry = ''Retail'', doc_done = True\<rparr>]"
proof -
  have a: "trim (input fresh_state) \<noteq> []"
    by (simp add: fresh_state_def trim_def is_space_def)
  have b: "\<not> loading fresh_state" by (simp add: fresh_state_def)
  have i: "trim (input fresh_state) = ''hi''" "messages fresh_state = []"
      "msgIdCounter fresh_state = 0"
    by (simp_all add: fresh_state_def trim_def is_space_def)
  show ?thesis
    using a b good_stream_events
      well_formed_stream [OF a b good_stream_events, of "[1, 0, 0, 0, 2]"] i
    by (simp add: report_a_def eval_nat_numeral)
qed



text \<open>
  C5. From component states that agree on the input, the selected industries, the pinned
  sources and the handle, and with no send in flight, the two clients send the same
  body; and when the buffered reply is the payload of the answer event that ends the
  stream, after progress events only, each client appends the user message and one
  assistant message, and these agree in role, content, sources and context id.
\<close>

theorem buffered_matches_streaming:
  assumes "input b = input s" and "selectedIndustries b = selectedIndustries s"
      and "followUpSources b = followUpSources s"
      and "followUpContextId b = followUpContextId s"
      and "trim (input s) \<noteq> []" and "\<not> loading s" and "\<not> loading b"
      and "sse_events parse (concat chunks) = map Some (pre @ [Answer a])"
      and "list_all is_progress pre"
  shows "snd (handleSend parse ws (HttpResponse True chunks Done) s)
           = Some \<lparr>path = ''/api/query-stream'', req_body = stream_body (trim (input s)) s\<rparr>
       \<and> snd (handleSend_buffered waited (BHttpResponse True (Some a)) b)
           = Some \<lparr>path = ''/api/query'', req_body = stream_body (trim (input s)) s\<rparr>
       \<and> take (length (messages s))
              (messages (fst (handleSend parse ws (HttpResponse True chunks Done) s)))
           = messages s
       \<and> take (length (messages b))
              (messages (fst (handleSend_buffered waited (BHttpResponse True (Some a)) b)))
           = messages b
       \<and> map message_view (drop (length (messages s))
              (messages (fst (handleSend parse ws (HttpResponse True chunks Done) s))))
           = [(User, trim (input s), None, None),
              (Assistant, answer a, Some (answer_sources a), answer_context_id a)]
       \<and> map message_view (drop (length (messages b))
              (messages (fst (handleSend_buffered waited (BHttpResponse True (Some a)) b))))
           = [(User, trim (input s), None, None),
              (Assistant, answer a, Some (answer_sources a), answer_context_id a)]"
proof -
  define r1 where "r1 = \<lparr>current = begin_send (trim (input s)) s,
                         history = [begin_send (trim (input s)) s], waits = ws\<rparr>"
  have start: "messages (current r1) = messages s @ [user_message (msgIdCounter s + 1) (trim (input s))]"
      "msgIdCounter (current r1) = msgIdCounter s + 1"
    by (simp_all add: r1_def begin_send_fields)
  have bodies: "buffered_body (trim (input b)) b = stream_body (trim (input s)) s"
    using assms(1-4) by (simp add: buffered_body_def stream_body_def)
  from progress_only [OF assms(9), of r1] obtain t where
    t: "run_events timed_event (map Some pre) r1 = Normal t"
       "messages (current t) = messages (current r1)"
       "msgIdCounter (current t) = msgIdCounter (current r1)"
    by blast
  from answer_event [of a t] obtain w where
    w: "timed_event (Answer a) t =
     Normal (arrive ((current (await t))\<lparr>msgIdCounter := msgIdCounter (current t) + 1,
                 messages := messages (current t) @
                   [answer_message (msgIdCounter (current t) + 1) a w]\<rparr>) (await t))"
    by blast
  have run: "run_events timed_event (sse_events parse (concat chunks)) r1
               = Normal (arrive ((current (await t))\<lparr>msgIdCounter := msgIdCounter (current t) + 1,
                 messages := messages (current t) @
                   [answer_message (msgIdCounter (current t) + 1) a w]\<rparr>) (await t))"
    unfolding assms(8) using t(1) w by (simp add: run_events_append)
  have streamed: "messages (fst (handleSend parse ws (HttpResponse True chunks Done) s))
           = messages s @ [user_message (msgIdCounter s + 1) (trim (input s)),
                           answer_message (msgIdCounter s + 2) a w]"
    using t(2,3) start
    by (simp add: handleSend_def handleSend_run_ok [OF assms(5,6)] Let_def r1_def [symmetric]
                  run arrive_fields finally_block_fields await_fields)
  have request: "snd (handleSend parse ws (HttpResponse True chunks Done) s)
           = Some \<lparr>path = ''/api/query-stream'', req_body = stream_body (trim (input s)) s\<rparr>"
    by (simp add: handleSend_def handleSend_run_ok [OF assms(5,6)] Let_def)
  have go: "trim (input b) \<noteq> []" using assms(1,5) by simp
  have buffered: "messages (fst (handleSend_buffered waited (BHttpResponse True (Some a)) b))
           = messages b @ [user_message (msgIdCounter b + 1) (trim (input s)),
                           answer_message (msgIdCounter b + 2) a (elapsed b)]"
    using assms(1) by (simp add: handleSend_buffered_ok [OF go assms(7)])
  have views: "message_view (user_message i q) = (User, q, None, None)"
      "message_view (answer_message i a e) = (Assistant, answer a, Some (answer_sources a), answer_context_id a)"
    for i q e
    by (simp_all add: message_view_def user_message_def answer_message_def)
  show ?thesis
    unfolding streamed buffered
    using bodies request
    by (simp add: handleSend_buffered_ok [OF go assms(7)] views)
qed

theorem buffered_matches_streaming_witness:
  "input fresh_home = input streaming_home
   \<and> selectedIndustries fresh_home = selectedIndustries streaming_home
   \<and> followUpSources fresh_home = followUpSources streaming_home
   \<and> followUpContextId fresh_home = followUpContextId streaming_home
   \<and> trim (input streaming_home) \<noteq> [] \<and> \<not> loading streaming_home \<and> \<not> loading fresh_home
   \<and> sse_events sample_parse (concat good_stream)
       = map Some ([Searching, Found 1, Loading report_a, Answering] @ [Answer sample_answer])
   \<and> list_all is_progress [Searching, Found 1, Loading report_a, Answering]
   \<and> snd (handleSend_buffered 3 (BHttpResponse True (Some sample_answer)) fresh_home)
       = Some \<lparr>path = ''/api/query'',
               req_body = [(''question'', JString ''hi''),
                           (''industry_filter'', JStrings [''Retail''])]\<rparr>
   \<and> map message_view
         (messages (fst (handleSend_buffered 3 (BHttpResponse True (Some sample_answer))
                           fresh_home)))
       = [(User, ''hi'', None, None), (Assistant, ''ok'', Some [doc_a], Some ''h1'')]
   \<and> map message_view
         (messages (fst (handleSend sample_parse [1, 0, 0, 0, 2]
                           (HttpResponse True good_stream Done) streaming_home)))
       = [(User, ''hi'', None, None), (Assistant, ''ok'', Some [doc_a], Some ''h1'')]"
proof -
  have a: "input fresh_home = input streaming_home"
    by (simp add: fresh_home_def streaming_home_def fresh_state_def)
  have b: "selectedIndustries fresh_home = selectedIndustries streaming_home"
    by (simp add: fresh_home_def streaming_home_def fresh_state_def)
  have c: "followUpSources fresh_home = followUpSources streaming_home"
    by (simp add: fresh_home_def streaming_home_def fresh_state_def)
  have d: "followUpContextId fresh_home = followUpContextId streaming_home"
    by (simp add: fresh_home_def streaming_home_def fresh_state_def)
  have e: "trim (input streaming_home) \<noteq> []"
    by (simp add: streaming_home_def fresh_state_def trim_def is_space_def)
  have f: "\<not> loading streaming_home" by (simp add: streaming_home_def fresh_state_def)
  have g: "\<not> loading fresh_home" by (simp add: fresh_home_def)
  have h: "sse_events sample_parse (concat good_stream)
       = map Some ([Searching, Found 1, Loading report_a, Answering] @ [Answer sample_answer])"
    by (simp add: good_stream_events)
  have i: "list_all is_progress [Searching, Found 1, Loading report_a, Answering]"
    by (simp add: is_progress_def)
  have v: "trim (input streaming_home) = ''hi''" "messages streaming_home = []"
      "messages fresh_home = []"
      "stream_body ''hi'' streaming_home
         = [(''question'', JString ''hi''), (''industry_filter'', JStrings [''Retail''])]"
    by (simp_all add: streaming_home_def fresh_state_def fresh_home_def trim_def is_space_def
                      stream_body_def truthy_def)
  show ?thesis
    using a b c d e f g h i v
      buffered_matches_streaming [OF a b c d e f g h i, of "[1, 0, 0, 0, 2]" 3]
    by (simp add: sample_answer_def)
qed

section \<open>Properties of the orchestration core\<close>

lemma precedes_from_iff:
  "precedes_from seen P Q xs \<longleftrightarrow>
     (\<forall>j < length xs. Q (xs ! j) \<longrightarrow>
        (seen \<or> (\<exists>i < j. P (xs ! i))) \<and> (\<forall>i < length xs. P (xs ! i) \<longrightarrow> i < j))"
proof (induction xs arbitrary: seen)
  case Nil
  show ?case by simp
next
  case (Cons x xs)
  show ?case
    unfolding precedes_from.simps Cons.IH list_all_length
    by (simp add: All_less_Suc2 Ex_less_Suc2)
qed

lemma precedes_iff:
  "precedes P Q xs \<longleftrightarrow>
     (\<forall>j < length xs. Q (xs ! j) \<longrightarrow>
        (\<exists>i < j. P (xs ! i)) \<and> (\<forall>i < length xs. P (xs ! i) \<longrightarrow> i < j))"
  by (simp add: precedes_def precedes_from_iff)

lemma followed_from_iff:
  "followed_from seen P Q xs \<longleftrightarrow>
     (\<forall>i < length xs. P (xs ! i) \<longrightarrow>
        \<not> seen \<and> (\<exists>j < length xs. i < j \<and> Q (xs ! j))
        \<and> (\<forall>j < length xs. Q (xs ! j) \<longrightarrow> i < j))"
proof (induction xs arbitrary: seen)
  case Nil
  show ?case by simp
next
  case (Cons x xs)
  show ?case
    unfolding followed_from.simps Cons.IH list_ex_length
    by (simp add: All_less_Suc2 Ex_less_Suc2) blast
qed

lemma followed_by_iff:
  "followed_by P Q xs \<longleftrightarrow>
     (\<forall>i < length xs. P (xs ! i) \<longrightarrow>
        (\<exists>j < length xs. i < j \<and> Q (xs ! j))
        \<and> (\<forall>j < length xs. Q (xs ! j) \<longrightarrow> i < j))"
  by (simp add: followed_by_def followed_from_iff)




lemma followed_from_none: "list_all (\<lambda>x. \<not> P x) xs \<Longrightarrow> followed_from seen P Q xs"
  by (induction xs arbitrary: seen) auto

lemma answering_emitted:
  "\<exists>t. is_terminal t \<and> emitted (answering col cfg now fin c q chunks before) = before @ [PhAnswering, t]"
  by (auto simp: answering_def Let_def is_terminal_def split: sum.splits prod.splits)

lemma answering_calls:
  "synthesizer_calls (answering col cfg now fin c q chunks before) = [(q, chunks)]"
  by (auto simp: answering_def Let_def split: sum.splits prod.splits)







lemma follow_up_run:
  "emitted (orchestrate sample_collaborators sample_config 200 201 warm_cache (FollowUp ''And then?'' ''h1''))
     = [PhAnswering,
        PhAnswer \<lparr>answer_text = ''Three trends.'', result_sources = [chunk_a1, chunk_b1],
                  context_handle = ''h2'', elapsed_time = 1\<rparr>]"
  by (simp add: orchestrate_def searching_def answering_def synthesize_def Let_def cache_load_def warm_cache_def
        sample_collaborators_def sample_config_def chunk_a1_def chunk_b1_def chunk_a2_def)


text \<open>
  C1. A follow-up whose handle the cache still holds (known and not older than the time
  to live) emits no \<open>Searching\<close>, \<open>Found\<close> or \<open>Loading\<close> event, and the Synthesizer is
  called once, with the question and exactly the chunks cached under the handle.
\<close>

theorem fast_path:
  assumes "cache_load (ttl cfg) now c h = Some chunks"
  shows "filter is_retrieval_phase (emitted (orchestrate col cfg now fin c (FollowUp q h))) = []
       \<and> synthesizer_calls (orchestrate col cfg now fin c (FollowUp q h)) = [(q, chunks)]
       \<and> (\<exists>e. map_of c h = Some e \<and> context_chunks e = chunks)"
proof -
  obtain t where t: "is_terminal t"
      "emitted (answering col cfg now fin c q chunks []) = [] @ [PhAnswering, t]"
    using answering_emitted by blast
  from assms have cached: "\<exists>e. map_of c h = Some e \<and> context_chunks e = chunks"
    by (auto simp: cache_load_def split: option.splits if_splits)
  show ?thesis
    using assms t cached
    by (auto simp: orchestrate_def answering_calls is_retrieval_phase_def is_terminal_def)
qed

theorem fast_path_witness:
  "cache_load (ttl sample_config) 200 warm_cache ''h1'' = Some [chunk_a1, chunk_b1, chunk_a2]
   \<and> emitted (orchestrate sample_collaborators sample_config 200 201 warm_cache
                (FollowUp ''And then?'' ''h1''))
       = [PhAnswering,
          PhAnswer \<lparr>answer_text = ''Three trends.'', result_sources = [chunk_a1, chunk_b1],
                    context_handle = ''h2'', elapsed_time = 1\<rparr>]
   \<and> synthesizer_calls (orchestrate sample_collaborators sample_config 200 201 warm_cache
                (FollowUp ''And then?'' ''h1''))
       = [(''And then?'', [chunk_a1, chunk_b1, chunk_a2])]"
proof -
  have h: "cache_load (ttl sample_config) 200 warm_cache ''h1''
             = Some [chunk_a1, chunk_b1, chunk_a2]"
    by (simp add: cache_load_def warm_cache_def sample_config_def)
  show ?thesis
    using h follow_up_run
      fast_path [OF h, of sample_collaborators 201 "''And then?''"]
    by simp
qed




end
